theory Spec2Isabelle
  imports Complex_Main
begin

section \<open>JavaScript numbers\<close>

text \<open>
  The scheduler computes with JavaScript numbers. Quantities that are integral in the
  program (time values in milliseconds, minutes, slot indices, identifiers) are modelled
  as \<open>int\<close>; pixel coordinates and hours are modelled as exact rationals. The values the
  program handles are far below \<open>2^53\<close>, where double arithmetic on integers is exact.
  \<open>Math.round\<close> rounds to the nearest integer, a tie going up.
\<close>

definition Math_round :: "rat \<Rightarrow> int" where
  "Math_round x = \<lfloor>x + 1 / 2\<rfloor>"

definition Math_floor :: "rat \<Rightarrow> int" where
  "Math_floor x = \<lfloor>x\<rfloor>"

definition Math_ceil :: "rat \<Rightarrow> int" where
  "Math_ceil x = \<lceil>x\<rceil>"

text \<open>\<^verbatim>\<open>clamp = (value, min, max) => Math.max(min, Math.min(max, value))\<close>\<close>

definition clamp :: "'a::linorder \<Rightarrow> 'a \<Rightarrow> 'a \<Rightarrow> 'a" where
  "clamp v lo hi = max lo (min hi v)"

section \<open>Dates\<close>

text \<open>
  A valid \<open>Date\<close> is its time value: milliseconds on the local wall clock. The local time
  zone is taken to be UTC (a zone without daylight-saving shifts), so the local-time
  accessors are the time-value functions of the language standard.
\<close>

type_synonym date = int

definition msPerMinute :: int where "msPerMinute = 60000"
definition msPerHour :: int where "msPerHour = 3600000"
definition msPerDay :: int where "msPerDay = 86400000"

definition Day :: "date \<Rightarrow> int" where
  "Day t = t div msPerDay"

definition HourFromTime :: "date \<Rightarrow> int" where
  "HourFromTime t = (t div msPerHour) mod 24"

definition MinFromTime :: "date \<Rightarrow> int" where
  "MinFromTime t = (t div msPerMinute) mod 60"

definition getHours :: "date \<Rightarrow> int" where
  "getHours d = HourFromTime d"

definition getMinutes :: "date \<Rightarrow> int" where
  "getMinutes d = MinFromTime d"

text \<open>\<open>d.setHours(h, m, s, ms)\<close> and \<open>d.setMinutes(m, s, ms)\<close>, returning the new time value.\<close>

definition setHours :: "date \<Rightarrow> int \<Rightarrow> int \<Rightarrow> int \<Rightarrow> int \<Rightarrow> date" where
  "setHours d h m s ms = Day d * msPerDay + (h * msPerHour + m * msPerMinute + s * 1000 + ms)"

definition setMinutes :: "date \<Rightarrow> int \<Rightarrow> int \<Rightarrow> int \<Rightarrow> date" where
  "setMinutes d m s ms =
     Day d * msPerDay + (HourFromTime d * msPerHour + m * msPerMinute + s * 1000 + ms)"

definition startOfDay :: "date \<Rightarrow> date" where
  "startOfDay d = setHours d 0 0 0 0"

definition dayWithMinutes :: "date \<Rightarrow> int \<Rightarrow> date" where
  "dayWithMinutes day totalMinutes = setMinutes (startOfDay day) totalMinutes 0 0"

definition sameDay :: "date \<Rightarrow> date \<Rightarrow> bool" where
  "sameDay a b \<longleftrightarrow> startOfDay a = startOfDay b"

definition minutesOfDay :: "date \<Rightarrow> int" where
  "minutesOfDay d = getHours d * 60 + getMinutes d"

section \<open>Appointments\<close>

record Appointment =
  id' :: int
  text' :: string
  startDate :: date
  endDate :: date
  projectId :: int
  taskType :: string
  description :: string
  timeSpent :: rat
  issueKey :: "string option"
  completed :: "bool option"

record SchedulerTaskItemProps =
  item_id :: int
  item_text :: string
  item_startDate :: date
  item_endDate :: date
  item_projectId :: int
  item_taskType :: string
  item_description :: "string option"
  item_timeSpent :: "rat option"
  item_issueKey :: "string option"
  item_completed :: "bool option"

definition SLOT_HEIGHT :: rat where "SLOT_HEIGHT = 30"
definition MIN_DAY_MINUTES :: int where "MIN_DAY_MINUTES = 0"
definition MAX_DAY_MINUTES :: int where "MAX_DAY_MINUTES = 1440"
definition DEFAULT_WORK_START_MINUTES :: int where "DEFAULT_WORK_START_MINUTES = 9 * 60 + 30"
definition DEFAULT_WORK_END_MINUTES :: int where "DEFAULT_WORK_END_MINUTES = 19 * 60 + 30"
definition DEFAULT_BLOCK_MINUTES :: int where "DEFAULT_BLOCK_MINUTES = 15"

text \<open>The rounded length of an entry in minutes, never below one block.\<close>

definition durationMinutes :: "Appointment \<Rightarrow> int \<Rightarrow> int" where
  "durationMinutes entry minBlockMinutes =
     max minBlockMinutes (Math_round (of_int (endDate entry - startDate entry) / 60000))"

text \<open>Hours with two decimals: \<^verbatim>\<open>Math.round((minutes / 60) * 100) / 100\<close>.\<close>

definition hours2 :: "int \<Rightarrow> rat" where
  "hours2 minutes = of_int (Math_round ((of_int minutes / 60) * 100)) / 100"

definition normalizeTaskItem :: "SchedulerTaskItemProps \<Rightarrow> int \<Rightarrow> Appointment" where
  "normalizeTaskItem item minBlockMinutes =
     (let start = item_startDate item;
          end0 = item_endDate item;
          end1 = (if end0 \<le> start then start + minBlockMinutes * 60000 else end0);
          minutes = max minBlockMinutes (Math_round (of_int (end1 - start) / 60000))
      in \<lparr> id' = item_id item,
           text' = item_text item,
           startDate = start,
           endDate = end1,
           projectId = item_projectId item,
           taskType = item_taskType item,
           description = (case item_description item of None \<Rightarrow> [] | Some d \<Rightarrow> d),
           timeSpent = (case item_timeSpent item of None \<Rightarrow> hours2 minutes | Some h \<Rightarrow> h),
           issueKey = item_issueKey item,
           completed = item_completed item \<rparr>)"


section \<open>Timeline configuration\<close>

text \<open>
  Numbers that can be \<open>NaN\<close>: the offsets parsed from the configured times, and the work
  hours computed from them. A comparison with \<open>NaN\<close> is false; \<open>Math.min\<close>, \<open>Math.max\<close>
  and arithmetic on \<open>NaN\<close> give \<open>NaN\<close>.
\<close>

datatype number = NaN | Num int

fun num_le :: "number \<Rightarrow> number \<Rightarrow> bool" where
  "num_le (Num a) (Num b) = (a \<le> b)"
| "num_le _ _ = False"

fun num_lt :: "number \<Rightarrow> number \<Rightarrow> bool" where
  "num_lt (Num a) (Num b) = (a < b)"
| "num_lt _ _ = False"

fun num_min :: "number \<Rightarrow> number \<Rightarrow> number" where
  "num_min (Num a) (Num b) = Num (min a b)"
| "num_min _ _ = NaN"

fun num_max :: "number \<Rightarrow> number \<Rightarrow> number" where
  "num_max (Num a) (Num b) = Num (max a b)"
| "num_max _ _ = NaN"

fun num_add :: "number \<Rightarrow> number \<Rightarrow> number" where
  "num_add (Num a) (Num b) = Num (a + b)"
| "num_add _ _ = NaN"

fun num_sub :: "number \<Rightarrow> number \<Rightarrow> number" where
  "num_sub (Num a) (Num b) = Num (a - b)"
| "num_sub _ _ = NaN"

definition num_clamp :: "number \<Rightarrow> number \<Rightarrow> number \<Rightarrow> number" where
  "num_clamp v lo hi = num_max lo (num_min hi v)"

text \<open>\<^verbatim>\<open>Math.floor(x / b) * b\<close> and \<^verbatim>\<open>Math.ceil(x / b) * b\<close>.\<close>

fun snap_down :: "number \<Rightarrow> int \<Rightarrow> number" where
  "snap_down (Num x) b = Num (Math_floor (of_int x / of_int b) * b)"
| "snap_down NaN b = NaN"

fun snap_up :: "number \<Rightarrow> int \<Rightarrow> number" where
  "snap_up (Num x) b = Num (Math_ceil (of_int x / of_int b) * b)"
| "snap_up NaN b = NaN"

text \<open>A \<open>Date\<close> object handed in by a caller may be an Invalid Date.\<close>

datatype jsdate = Invalid_Date | Valid_Date date

record SchedulerConfig =
  cfg_startTime :: "jsdate option"
  cfg_endTime :: "jsdate option"
  cfg_blockMinutes :: "int option"

record Timeline =
  startMinutes :: int
  endMinutes :: int
  workStartMinutes :: number
  workEndMinutes :: number
  blockMinutes :: int
  slotCount :: int
  slotsPerHour :: rat
  defaultTaskMinutes :: int
  defaultTaskSlots :: int
  dayStartMinutes :: int
  dayEndMinutes :: int

fun toOffsetMinutes :: "jsdate option \<Rightarrow> jsdate \<Rightarrow> number option" where
  "toOffsetMinutes None referenceDay = None"
| "toOffsetMinutes (Some Invalid_Date) referenceDay = None"
| "toOffsetMinutes (Some (Valid_Date v)) Invalid_Date = Some NaN"
| "toOffsetMinutes (Some (Valid_Date v)) (Valid_Date r) =
     (let dayDiff = Math_round (of_int (startOfDay v - startOfDay r) / 86400000);
          dayMinutes = getHours v * 60 + getMinutes v
      in Some (Num (dayDiff * 1440 + dayMinutes)))"

text \<open>\<^verbatim>\<open>new Date(2026, 0, 1)\<close>, the reference day when neither time is configured.\<close>

definition date_2026_01_01 :: date where
  "date_2026_01_01 = 20454 * msPerDay"

definition referenceDay :: "SchedulerConfig \<Rightarrow> jsdate" where
  "referenceDay config =
     (case cfg_startTime config of
        Some d \<Rightarrow> d
      | None \<Rightarrow> (case cfg_endTime config of Some d \<Rightarrow> d | None \<Rightarrow> Valid_Date date_2026_01_01))"

text \<open>\<^verbatim>\<open>x ?? d\<close>: \<open>x\<close>, or \<open>d\<close> when \<open>x\<close> is \<open>null\<close> or \<open>undefined\<close>.\<close>

definition nullish :: "'a option \<Rightarrow> 'a \<Rightarrow> 'a" where
  "nullish x d = (case x of None \<Rightarrow> d | Some v \<Rightarrow> v)"

text \<open>
  The validation pass on the parsed offsets: clamp into the day, keep the end at least
  fifteen minutes after the start, snap to block boundaries, clamp again. The warnings the
  program logs to the console are not part of its result and are left out.
\<close>

definition workWindow :: "number option \<Rightarrow> number option \<Rightarrow> int \<Rightarrow> number \<times> number" where
  "workWindow parsedStart parsedEnd b =
     (let lo = Num MIN_DAY_MINUTES; hi = Num MAX_DAY_MINUTES;
          ws0 = num_clamp (nullish parsedStart (Num DEFAULT_WORK_START_MINUTES)) lo hi;
          we0 = num_clamp (nullish parsedEnd (Num DEFAULT_WORK_END_MINUTES)) lo hi;
          we1 = (if num_le we0 ws0 then num_min hi (num_add ws0 (Num 15)) else we0);
          we2 = (if num_lt (num_sub we1 ws0) (Num 15) then num_min hi (num_add ws0 (Num 15)) else we1);
          ws3 = (if num_le we2 ws0 then num_max lo (Num (MAX_DAY_MINUTES - 15)) else ws0);
          we3 = (if num_le we2 ws0 then hi else we2);
          snappedStart = snap_down ws3 b;
          snappedEnd = snap_up we3 b;
          ws = num_clamp snappedStart lo (Num (MAX_DAY_MINUTES - b));
          we = num_clamp snappedEnd (num_add ws (Num b)) hi
      in (ws, we))"

text \<open>
  \<^verbatim>\<open>config?.blockMinutes ?? DEFAULT_BLOCK_MINUTES\<close>. The block size has the type
  \<^verbatim>\<open>15 | 30 | 60\<close>. The definitions below take any integer, but they follow the program
  only for a block that is not 0: dividing by 0 the program gets \<open>NaN\<close> work hours and an
  infinite slot count, the integer division here gets 0.
\<close>

definition blockOf :: "SchedulerConfig \<Rightarrow> int" where
  "blockOf c = (case cfg_blockMinutes c of None \<Rightarrow> DEFAULT_BLOCK_MINUTES | Some x \<Rightarrow> x)"

definition resolvedTimeline :: "SchedulerConfig \<Rightarrow> Timeline" where
  "resolvedTimeline config =
     (let b = blockOf config;
          parsedStart = toOffsetMinutes (cfg_startTime config) (referenceDay config);
          parsedEnd = toOffsetMinutes (cfg_endTime config) (referenceDay config);
          w = workWindow parsedStart parsedEnd b;
          count = max 1 (Math_floor (of_int (MAX_DAY_MINUTES - MIN_DAY_MINUTES) / of_int b));
          timelineStart = MIN_DAY_MINUTES;
          timelineEnd = timelineStart + count * b;
          defaultTask = max 30 b
      in \<lparr> startMinutes = timelineStart,
           endMinutes = timelineEnd,
           workStartMinutes = fst w,
           workEndMinutes = snd w,
           blockMinutes = b,
           slotCount = count,
           slotsPerHour = 60 / of_int b,
           defaultTaskMinutes = defaultTask,
           defaultTaskSlots = max 1 (Math_round (of_int defaultTask / of_int b)),
           dayStartMinutes = timelineStart,
           dayEndMinutes = timelineEnd \<rparr>)"





section \<open>Calendar dates and day keys\<close>

text \<open>
  Year, month and day of the month of a time value, as the language standard defines them
  (the local time zone being UTC). \<open>YearFromDay\<close> computes the year containing a day number
  from an estimate that is off by at most one.
\<close>

definition DaysInYear :: "int \<Rightarrow> int" where
  "DaysInYear y =
     (if y mod 4 \<noteq> 0 then 365 else if y mod 100 \<noteq> 0 then 366
      else if y mod 400 \<noteq> 0 then 365 else 366)"

definition DayFromYear :: "int \<Rightarrow> int" where
  "DayFromYear y =
     365 * (y - 1970) + (y - 1969) div 4 - (y - 1901) div 100 + (y - 1601) div 400"

definition YearFromDay :: "int \<Rightarrow> int" where
  "YearFromDay d =
     (let y = 1970 + (d * 10000) div 3652425
      in if DayFromYear (y + 1) \<le> d then y + 1
         else if DayFromYear y \<le> d then y
         else y - 1)"

definition YearFromTime :: "date \<Rightarrow> int" where
  "YearFromTime t = YearFromDay (Day t)"

definition InLeapYear :: "date \<Rightarrow> int" where
  "InLeapYear t = (if DaysInYear (YearFromTime t) = 366 then 1 else 0)"

definition DayWithinYear :: "date \<Rightarrow> int" where
  "DayWithinYear t = Day t - DayFromYear (YearFromTime t)"

text \<open>The number of days of a year before its month \<open>m\<close> (0 is January).\<close>

definition daysBeforeMonth :: "int \<Rightarrow> int \<Rightarrow> int" where
  "daysBeforeMonth m leap =
     (if m = 0 then 0 else if m = 1 then 31 else if m = 2 then 59 + leap
      else if m = 3 then 90 + leap else if m = 4 then 120 + leap
      else if m = 5 then 151 + leap else if m = 6 then 181 + leap
      else if m = 7 then 212 + leap else if m = 8 then 243 + leap
      else if m = 9 then 273 + leap else if m = 10 then 304 + leap
      else 334 + leap)"

definition MonthFromTime :: "date \<Rightarrow> int" where
  "MonthFromTime t =
     (let d = DayWithinYear t; leap = InLeapYear t
      in if d < 31 then 0 else if d < 59 + leap then 1 else if d < 90 + leap then 2
         else if d < 120 + leap then 3 else if d < 151 + leap then 4
         else if d < 181 + leap then 5 else if d < 212 + leap then 6
         else if d < 243 + leap then 7 else if d < 273 + leap then 8
         else if d < 304 + leap then 9 else if d < 334 + leap then 10
         else 11)"

definition DateFromTime :: "date \<Rightarrow> int" where
  "DateFromTime t = DayWithinYear t - daysBeforeMonth (MonthFromTime t) (InLeapYear t) + 1"

definition getFullYear :: "date \<Rightarrow> int" where
  "getFullYear d = YearFromTime d"

definition getMonth :: "date \<Rightarrow> int" where
  "getMonth d = MonthFromTime d"

definition getDate :: "date \<Rightarrow> int" where
  "getDate d = DateFromTime d"

text \<open>
  \<open>MakeDay\<close>: the day number of day \<open>dt\<close> of month \<open>month\<close> of \<open>year\<close>, a month outside
  0..11 carrying into the year. \<open>new Date(year, month, day)\<close> reads a year from 0 to 99 as
  1900 + year, and gives an Invalid Date outside the range of time values.
\<close>

definition MakeDay :: "int \<Rightarrow> int \<Rightarrow> int \<Rightarrow> int" where
  "MakeDay year month dt =
     (let ym = year + month div 12; mn = month mod 12
      in DayFromYear ym + daysBeforeMonth mn (if DaysInYear ym = 366 then 1 else 0) + dt - 1)"

definition maxTimeValue :: int where
  "maxTimeValue = 8640000000000000"

definition validTime :: "date \<Rightarrow> bool" where
  "validTime t \<longleftrightarrow> - maxTimeValue \<le> t \<and> t \<le> maxTimeValue"

definition TimeClip :: "int \<Rightarrow> jsdate" where
  "TimeClip t = (if validTime t then Valid_Date t else Invalid_Date)"

definition newDate3 :: "int \<Rightarrow> int \<Rightarrow> int \<Rightarrow> jsdate" where
  "newDate3 year month dt =
     (let yr = (if 0 \<le> year \<and> year \<le> 99 then 1900 + year else year)
      in TimeClip (MakeDay yr month dt * msPerDay))"

text \<open>Integers as decimal strings, as a template literal prints them.\<close>

definition digitChar :: "nat \<Rightarrow> char" where
  "digitChar n = ''0123456789'' ! n"

fun showNat :: "nat \<Rightarrow> string" where
  "showNat n = (if n < 10 then [digitChar n] else showNat (n div 10) @ [digitChar (n mod 10)])"

definition showInt :: "int \<Rightarrow> string" where
  "showInt i = (if i < 0 then CHR ''-'' # showNat (nat (- i)) else showNat (nat i))"

text \<open>\<^verbatim>\<open>dayKey = (date) => `${date.getFullYear()}-${date.getMonth()}-${date.getDate()}`\<close>\<close>

definition dayKey :: "date \<Rightarrow> string" where
  "dayKey d = showInt (getFullYear d) @ ''-'' @ showInt (getMonth d) @ ''-'' @ showInt (getDate d)"

text \<open>\<open>s.split(c)\<close> for a one-character separator.\<close>

fun split :: "char \<Rightarrow> string \<Rightarrow> string list" where
  "split c [] = [[]]"
| "split c (x # xs) =
     (if x = c then [] # split c xs
      else (case split c xs of p # ps \<Rightarrow> (x # p) # ps | [] \<Rightarrow> [[x]]))"

text \<open>
  \<open>Number(s)\<close> on the strings that occur between the dashes of a key: the empty string is
  0, a string of decimal digits is its value, anything else is taken to be \<open>NaN\<close> (the
  other numeric literal forms of the language, such as surrounding white space, a sign, a
  fraction, an exponent or a hexadecimal literal, are not modelled).
\<close>

definition digitVal :: "char \<Rightarrow> nat option" where
  "digitVal c = map_of (zip ''0123456789'' [0, 1, 2, 3, 4, 5, 6, 7, 8, 9]) c"

fun parseDigits :: "nat \<Rightarrow> string \<Rightarrow> nat option" where
  "parseDigits acc [] = Some acc"
| "parseDigits acc (c # cs) =
     (case digitVal c of None \<Rightarrow> None | Some v \<Rightarrow> parseDigits (acc * 10 + v) cs)"

definition Number :: "string \<Rightarrow> number" where
  "Number s = (case parseDigits 0 s of None \<Rightarrow> NaN | Some n \<Rightarrow> Num (int n))"

text \<open>
  \<open>parseDayKey\<close>: \<open>None\<close> is \<open>null\<close>. The first three parts are read; a part that is
  missing is \<open>undefined\<close>, which is not \<open>NaN\<close> for \<open>Number.isNaN\<close> but makes the
  constructed date invalid.
\<close>

fun parseDayKeyParts :: "number list \<Rightarrow> jsdate option" where
  "parseDayKeyParts (NaN # _) = None"
| "parseDayKeyParts (_ # NaN # _) = None"
| "parseDayKeyParts (_ # _ # NaN # _) = None"
| "parseDayKeyParts (Num y # Num m # Num d # _) = Some (newDate3 y m d)"
| "parseDayKeyParts _ = Some Invalid_Date"

definition parseDayKey :: "string \<Rightarrow> jsdate option" where
  "parseDayKey v = parseDayKeyParts (map Number (split CHR ''-'' v))"

section \<open>The scheduler component\<close>

text \<open>
  The gesture handlers of the component as functions on its state. React state, and the
  refs that mirror it, are fields of one record; the calls the component makes to
  \<open>onTaskCreate\<close> and \<open>onTasksChange\<close> are appended to \<open>calls\<close>. The flags \<open>canDrag\<close>,
  \<open>canResize\<close> and \<open>canCreate\<close> are the ones the component derives from \<open>readOnly\<close>,
  \<open>features\<close> and the handlers it was given.
\<close>

datatype SchedulerView = ViewDay | ViewWeek | ViewWorkWeek | ViewMonth

datatype ResizeEdge = EdgeTop | EdgeBottom

datatype DragPreview = DragPreviewGrid string int | DragPreviewMonth string

record DOMRect =
  rect_left :: rat
  rect_top :: rat
  rect_width :: rat
  rect_height :: rat

definition rect_right :: "DOMRect \<Rightarrow> rat" where
  "rect_right r = rect_left r + rect_width r"

definition rect_bottom :: "DOMRect \<Rightarrow> rat" where
  "rect_bottom r = rect_top r + rect_height r"

record ResizeDraft =
  rd_id :: int
  rd_startDate :: date
  rd_endDate :: date

text \<open>
  A call of \<open>setResizeDraft\<close> takes effect when React next renders the component: until
  then it waits in a queue, with the value it was given or, for a pointer move of a resize,
  with the draft that its updater function would install.
\<close>

datatype DraftUpdate = SetDraft "ResizeDraft option" | MoveDraft ResizeDraft

record ResizeSession =
  rs_id :: int
  rs_edge :: ResizeEdge
  rs_day :: date
  rs_pointerStartY :: rat
  rs_startMinutes :: int
  rs_endMinutes :: int

record CreateDraft =
  cd_day :: string
  cd_dayDate :: date
  cd_startSlot :: int
  cd_endSlot :: int

record Project =
  project_id :: int
  project_text :: string
  project_color :: string

record TaskType =
  type_id :: string
  type_text :: string
  type_billable :: bool

text \<open>A new entry as handed to \<open>onTaskCreate\<close>: an appointment without an id.\<close>

record AppointmentDraft =
  draft_text :: string
  draft_startDate :: date
  draft_endDate :: date
  draft_projectId :: int
  draft_taskType :: string
  draft_description :: string
  draft_timeSpent :: rat
  draft_completed :: "bool option"

record CreateContext =
  ctx_day :: date
  ctx_slot :: int
  ctx_durationMinutes :: int

datatype Callback = TaskCreate AppointmentDraft CreateContext | TasksChange "Appointment list"

record SchedulerProps =
  config :: SchedulerConfig
  canDrag :: bool
  canResize :: bool
  canCreate :: bool
  projects :: "Project list"
  taskTypes :: "TaskType list"

text \<open>
  The filters hold \<open>None\<close> for \<open>'all'\<close>; the project filter otherwise holds the number
  its string value denotes. \<open>resizeSession\<close> is the ref \<open>resizeSessionRef\<close>. The draft of
  a resize is held twice: \<open>resizeDraft\<close> is the React state, which the handlers only set,
  through the queue \<open>pendingResizeDraft\<close>, and \<open>resizeDraftRef\<close> is the ref that the
  release reads.
\<close>

record SchedulerState =
  appointments :: "Appointment list"
  currentView :: SchedulerView
  projectFilter :: "int option"
  taskTypeFilter :: "string option"
  draggingId :: "int option"
  dragPreview :: "DragPreview option"
  dragOverlayWidth :: "int option"
  dragOverlayHeight :: "int option"
  dragPointer :: "(rat \<times> rat) option"
  hoveredEntryId :: "int option"
  hoverSlot :: "(string \<times> int) option"
  createDraft :: "CreateDraft option"
  settleEntryId :: "int option"
  settleFrame :: "int option"
  resizeSession :: "ResizeSession option"
  resizeDraft :: "ResizeDraft option"
  resizeDraftRef :: "ResizeDraft option"
  pendingResizeDraft :: "DraftUpdate list"
  dragAnchorSlot :: int
  dragAnchorPx :: "rat \<times> rat"
  dragStartPointer :: "(rat \<times> rat) option"
  resizeListeners :: bool
  createListeners :: bool
  globalResizeCursor :: bool
  gridDayRefs :: "(string \<times> DOMRect) list"
  monthDayRefs :: "(string \<times> DOMRect) list"
  calls :: "Callback list"

definition SLOT_MINUTES :: "SchedulerProps \<Rightarrow> int" where
  "SLOT_MINUTES p = blockMinutes (resolvedTimeline (config p))"

definition SLOT_COUNT :: "SchedulerProps \<Rightarrow> int" where
  "SLOT_COUNT p = slotCount (resolvedTimeline (config p))"

definition START_MINUTES :: "SchedulerProps \<Rightarrow> int" where
  "START_MINUTES p = startMinutes (resolvedTimeline (config p))"

definition DEFAULT_TASK_MINUTES :: "SchedulerProps \<Rightarrow> int" where
  "DEFAULT_TASK_MINUTES p = defaultTaskMinutes (resolvedTimeline (config p))"

definition DAY_START_MINUTES :: "SchedulerProps \<Rightarrow> int" where
  "DAY_START_MINUTES p = dayStartMinutes (resolvedTimeline (config p))"

definition DAY_END_MINUTES :: "SchedulerProps \<Rightarrow> int" where
  "DAY_END_MINUTES p = dayEndMinutes (resolvedTimeline (config p))"

text \<open>An id in a condition: \<open>null\<close> and 0 are falsy.\<close>

definition truthy :: "int option \<Rightarrow> bool" where
  "truthy x = (case x of None \<Rightarrow> False | Some n \<Rightarrow> n \<noteq> 0)"

definition updateAppointments ::
  "(Appointment list \<Rightarrow> Appointment list) \<Rightarrow> SchedulerState \<Rightarrow> SchedulerState" where
  "updateAppointments updater s =
     (let next = updater (appointments s)
      in s\<lparr>appointments := next, calls := calls s @ [TasksChange next]\<rparr>)"

text \<open>
  The settle animation, in a browser: the mark is cleared at once, and an animation frame
  is requested that will mark the entry \<open>i\<close>; \<open>settleFrame\<close> holds the entry of the
  requested frame. The frame itself, and the timer that clears the mark again, come later
  and are not modelled.
\<close>

definition queueSettleAnimation :: "int \<Rightarrow> SchedulerState \<Rightarrow> SchedulerState" where
  "queueSettleAnimation i s = s\<lparr>settleEntryId := None, settleFrame := Some i\<rparr>"

definition movedEntry :: "SchedulerProps \<Rightarrow> int \<Rightarrow> date \<Rightarrow> Appointment \<Rightarrow> Appointment" where
  "movedEntry p i nextStart item =
     (if id' item \<noteq> i then item
      else (let duration = durationMinutes item (SLOT_MINUTES p);
                start = nextStart;
                end1 = start + duration * 60000
            in item\<lparr>startDate := start, endDate := end1, timeSpent := hours2 duration\<rparr>))"

definition moveAppointment ::
  "SchedulerProps \<Rightarrow> int \<Rightarrow> date \<Rightarrow> SchedulerState \<Rightarrow> SchedulerState" where
  "moveAppointment p i nextStart s =
     (if \<not> canDrag p then s
      else queueSettleAnimation i (updateAppointments (map (movedEntry p i nextStart)) s))"

definition resizedEntry ::
  "SchedulerProps \<Rightarrow> int \<Rightarrow> date \<Rightarrow> date \<Rightarrow> Appointment \<Rightarrow> Appointment" where
  "resizedEntry p i nextStart nextEnd item =
     (if id' item \<noteq> i then item
      else (let minutes = max (SLOT_MINUTES p) (Math_round (of_int (nextEnd - nextStart) / 60000))
            in item\<lparr>startDate := nextStart, endDate := nextEnd, timeSpent := hours2 minutes\<rparr>))"

definition resizeAppointment ::
  "SchedulerProps \<Rightarrow> int \<Rightarrow> date \<Rightarrow> date \<Rightarrow> SchedulerState \<Rightarrow> SchedulerState" where
  "resizeAppointment p i nextStart nextEnd s =
     (if \<not> canResize p then s
      else queueSettleAnimation i
             (updateAppointments (map (resizedEntry p i nextStart nextEnd)) s))"

subsection \<open>Creating by click or drag\<close>

text \<open>
  The project and the task type of a new entry: the active filter, or else the first
  option (\<^verbatim>\<open>projects[0]?.id || 1\<close>, \<^verbatim>\<open>taskTypes[0]?.id || 'development'\<close>).
\<close>

definition newTaskProject :: "SchedulerProps \<Rightarrow> SchedulerState \<Rightarrow> int" where
  "newTaskProject p s =
     (case projectFilter s of
        None \<Rightarrow> (case projects p of
                   [] \<Rightarrow> 1
                 | x # _ \<Rightarrow> if project_id x = 0 then 1 else project_id x)
      | Some n \<Rightarrow> n)"

definition newTaskType :: "SchedulerProps \<Rightarrow> SchedulerState \<Rightarrow> string" where
  "newTaskType p s =
     (case taskTypeFilter s of
        None \<Rightarrow> (case taskTypes p of
                   [] \<Rightarrow> ''development''
                 | x # _ \<Rightarrow> if type_id x = [] then ''development'' else type_id x)
      | Some t \<Rightarrow> t)"

definition addTaskAtSlot ::
  "SchedulerProps \<Rightarrow> date \<Rightarrow> int \<Rightarrow> int \<Rightarrow> SchedulerState \<Rightarrow> SchedulerState" where
  "addTaskAtSlot p day slot duration s =
     (if \<not> canCreate p then s
      else (let b = SLOT_MINUTES p;
                snappedDuration = max b (Math_round (of_int duration / of_int b) * b);
                durationSlots = max 1 (Math_ceil (of_int snappedDuration / of_int b));
                maxStart = max 0 (SLOT_COUNT p - durationSlots);
                safeSlot = clamp slot 0 maxStart;
                start = dayWithMinutes day (START_MINUTES p + safeSlot * b);
                end1 = start + snappedDuration * 60000;
                baseDraft = \<lparr> draft_text = ''New task'',
                              draft_startDate = start,
                              draft_endDate = end1,
                              draft_projectId = newTaskProject p s,
                              draft_taskType = newTaskType p s,
                              draft_description = [],
                              draft_timeSpent = of_int snappedDuration / 60,
                              draft_completed = Some False \<rparr>;
                context = \<lparr> ctx_day = startOfDay day, ctx_slot = safeSlot,
                            ctx_durationMinutes = snappedDuration \<rparr>
            in s\<lparr>calls := calls s @ [TaskCreate baseDraft context]\<rparr>))"

definition stopCreateSelection :: "SchedulerProps \<Rightarrow> bool \<Rightarrow> SchedulerState \<Rightarrow> SchedulerState" where
  "stopCreateSelection p commit s =
     (let s1 = s\<lparr>createListeners := False, createDraft := None\<rparr>
      in if \<not> canCreate p then s1
         else (case createDraft s of
                 None \<Rightarrow> s1
               | Some active \<Rightarrow>
                   if \<not> commit then s1
                   else (let minSlot = min (cd_startSlot active) (cd_endSlot active);
                             maxSlot = max (cd_startSlot active) (cd_endSlot active);
                             draggedSlots = max 1 (maxSlot - minSlot + 1);
                             duration = (if draggedSlots = 1 then DEFAULT_TASK_MINUTES p
                                         else draggedSlots * SLOT_MINUTES p)
                         in addTaskAtSlot p (cd_dayDate active) minSlot duration s1)))"

definition slotFromDayPointer :: "rat \<Rightarrow> DOMRect \<Rightarrow> int \<Rightarrow> int" where
  "slotFromDayPointer clientY rect maxSlot =
     (let y = clamp (clientY - rect_top rect) 0 (rect_height rect - 1);
          rawSlot = Math_floor (y / SLOT_HEIGHT)
      in clamp rawSlot 0 maxSlot)"

text \<open>
  A mouse-down on a day column: \<open>button\<close> and \<open>clientY\<close> are the event's, \<open>onEntry\<close> says
  that its target lies in an entry, an entry menu or a resize handle, and \<open>rect\<close> is the
  bounding rectangle of the column.
\<close>

definition startCreateSelection ::
  "SchedulerProps \<Rightarrow> date \<Rightarrow> int \<Rightarrow> bool \<Rightarrow> rat \<Rightarrow> DOMRect \<Rightarrow> SchedulerState \<Rightarrow> SchedulerState" where
  "startCreateSelection p day button onEntry clientY rect s =
     (if \<not> canCreate p then s
      else if button \<noteq> 0 then s
      else if truthy (draggingId s) \<or> resizeSession s \<noteq> None \<or> currentView s = ViewMonth then s
      else if onEntry then s
      else (let slot = slotFromDayPointer clientY rect (SLOT_COUNT p - 1);
                next = \<lparr> cd_day = dayKey day, cd_dayDate = startOfDay day,
                         cd_startSlot = slot, cd_endSlot = slot \<rparr>
            in s\<lparr>hoverSlot := None, createDraft := Some next, createListeners := True\<rparr>))"

text \<open>The mouse-move listener of a create gesture.\<close>

definition createOnMove :: "SchedulerProps \<Rightarrow> rat \<Rightarrow> SchedulerState \<Rightarrow> SchedulerState" where
  "createOnMove p clientY s =
     (case createDraft s of
        None \<Rightarrow> s
      | Some active \<Rightarrow>
          (case map_of (gridDayRefs s) (cd_day active) of
             None \<Rightarrow> s
           | Some rect \<Rightarrow>
               (let y = clamp (clientY - rect_top rect) 0 (rect_height rect - 1);
                    nextSlot = clamp (Math_floor (y / SLOT_HEIGHT)) 0 (SLOT_COUNT p - 1)
                in if nextSlot = cd_endSlot active then s
                   else s\<lparr>createDraft := Some (active\<lparr>cd_endSlot := nextSlot\<rparr>)\<rparr>)))"

subsection \<open>Dragging\<close>

definition resetDragState :: "SchedulerProps \<Rightarrow> SchedulerState \<Rightarrow> SchedulerState" where
  "resetDragState p s =
     (stopCreateSelection p False
        (s\<lparr>hoveredEntryId := None, draggingId := None, dragPreview := None,
           dragOverlayWidth := None, dragOverlayHeight := None, dragPointer := None,
           hoverSlot := None\<rparr>))
     \<lparr>dragAnchorSlot := 0, dragAnchorPx := (0, 0), dragStartPointer := None\<rparr>"

text \<open>The first registered zone whose rectangle contains the point.\<close>

definition findZoneAtPoint :: "(string \<times> DOMRect) list \<Rightarrow> rat \<Rightarrow> rat \<Rightarrow> (string \<times> DOMRect) option" where
  "findZoneAtPoint zones x y =
     find (\<lambda>(key, rect). rect_left rect \<le> x \<and> x \<le> rect_right rect
                          \<and> rect_top rect \<le> y \<and> y \<le> rect_bottom rect) zones"

definition draggingDurationMinutes :: "SchedulerProps \<Rightarrow> SchedulerState \<Rightarrow> int" where
  "draggingDurationMinutes p s =
     (case find (\<lambda>entry. Some (id' entry) = draggingId s) (appointments s) of
        None \<Rightarrow> 0
      | Some entry \<Rightarrow> durationMinutes entry (SLOT_MINUTES p))"

definition dragSlots :: "SchedulerProps \<Rightarrow> SchedulerState \<Rightarrow> int" where
  "dragSlots p s =
     (let d = draggingDurationMinutes p s;
          b = SLOT_MINUTES p
      in max 1 (Math_ceil (of_int (if d = 0 then b else d) / of_int b)))"

text \<open>The zone registry a drag consults in the current view.\<close>

definition zonesInView :: "SchedulerState \<Rightarrow> (string \<times> DOMRect) list" where
  "zonesInView s = (if currentView s = ViewMonth then monthDayRefs s else gridDayRefs s)"

text \<open>
  The start of a drag: \<open>dragId\<close> is the entry id read from the drag identifier, \<open>rect\<close>
  the rectangle of the dragged card when one is known, \<open>activator\<close> the client position
  of the activating pointer event when it has one.
\<close>

definition onDndDragStart ::
  "SchedulerProps \<Rightarrow> int option \<Rightarrow> DOMRect option \<Rightarrow> (rat \<times> rat) option
     \<Rightarrow> SchedulerState \<Rightarrow> SchedulerState" where
  "onDndDragStart p dragId rect activator s =
     (if \<not> canDrag p then s
      else if resizeSession s \<noteq> None then s
      else (case dragId of
              None \<Rightarrow> s
            | Some i \<Rightarrow>
                if i = 0 then s
                else (case find (\<lambda>entry. id' entry = i) (appointments s) of
                        None \<Rightarrow> s
                      | Some sourceEntry \<Rightarrow>
                          (let s1 = (stopCreateSelection p False s)
                                      \<lparr>hoveredEntryId := None, hoverSlot := None,
                                       draggingId := Some i,
                                       dragOverlayWidth :=
                                         (case rect of
                                            None \<Rightarrow> None
                                          | Some r \<Rightarrow> if rect_width r = 0 then None
                                                      else Some (Math_round (rect_width r))),
                                       dragOverlayHeight :=
                                         (case rect of
                                            None \<Rightarrow> None
                                          | Some r \<Rightarrow> if rect_height r = 0 then None
                                                      else Some (Math_round (rect_height r)))\<rparr>
                           in (case activator of
                                 None \<Rightarrow> s1\<lparr>dragStartPointer := None, dragPointer := None,
                                              dragAnchorPx := (0, 0)\<rparr>
                               | Some (startX, startY) \<Rightarrow>
                                   (let s2 = s1\<lparr>dragStartPointer := Some (startX, startY),
                                                dragPointer := Some (startX, startY)\<rparr>
                                    in (case rect of
                                          None \<Rightarrow> s2\<lparr>dragAnchorPx := (0, 0)\<rparr>
                                        | Some r \<Rightarrow>
                                            if rect_height r = 0 \<or> rect_width r = 0
                                            then s2\<lparr>dragAnchorPx := (0, 0)\<rparr>
                                            else (let offsetY = clamp (startY - rect_top r) 0
                                                                  (rect_height r - 1);
                                                      offsetX = clamp (startX - rect_left r) 0
                                                                  (rect_width r - 1);
                                                      b = SLOT_MINUTES p;
                                                      entrySlots = max 1 (Math_ceil
                                                        (of_int (durationMinutes sourceEntry b)
                                                           / of_int b))
                                                  in s2\<lparr>dragAnchorPx := (offsetX, offsetY),
                                                        dragAnchorSlot :=
                                                          clamp (Math_floor (offsetY / SLOT_HEIGHT))
                                                            0 (entrySlots - 1)\<rparr>))))))))"

text \<open>The drag library's move event, with the pointer's offset from where the drag began.\<close>

definition onDndDragMove :: "SchedulerProps \<Rightarrow> rat \<times> rat \<Rightarrow> SchedulerState \<Rightarrow> SchedulerState" where
  "onDndDragMove p delta s =
     (if \<not> canDrag p then s
      else if resizeSession s \<noteq> None then s
      else if \<not> truthy (draggingId s) then s
      else (case dragStartPointer s of
              None \<Rightarrow> s
            | Some start \<Rightarrow>
                (let pointerX = fst start + fst delta;
                     pointerY = snd start + snd delta;
                     s1 = s\<lparr>dragPointer := Some (pointerX, pointerY)\<rparr>
                 in if currentView s = ViewMonth
                    then (case findZoneAtPoint (monthDayRefs s) pointerX pointerY of
                            None \<Rightarrow> s1\<lparr>dragPreview := None\<rparr>
                          | Some hit \<Rightarrow> s1\<lparr>dragPreview := Some (DragPreviewMonth (fst hit))\<rparr>)
                    else (case findZoneAtPoint (gridDayRefs s) pointerX pointerY of
                            None \<Rightarrow> s1\<lparr>dragPreview := None\<rparr>
                          | Some hit \<Rightarrow>
                              (let relativeY = clamp (pointerY - rect_top (snd hit)) 0
                                                 (rect_height (snd hit) - 1);
                                   pointerSlot = Math_floor (relativeY / SLOT_HEIGHT);
                                   topSlot = pointerSlot - dragAnchorSlot s;
                                   slot = clamp topSlot 0 (max 0 (SLOT_COUNT p - dragSlots p s))
                               in s1\<lparr>dragPreview := Some (DragPreviewGrid (fst hit) slot)\<rparr>)))))"

definition onDndDragCancel :: "SchedulerProps \<Rightarrow> SchedulerState \<Rightarrow> SchedulerState" where
  "onDndDragCancel p s =
     (if \<not> canDrag p then s
      else if resizeSession s \<noteq> None then s
      else resetDragState p s)"

text \<open>
  The end of a drag. A key that parses to an Invalid Date does not come from \<open>dayKey\<close>;
  the program would store that Invalid Date, which the appointments of this model, holding
  valid dates only, cannot represent, and the model leaves the list unchanged there.
\<close>

definition onDndDragEnd :: "SchedulerProps \<Rightarrow> SchedulerState \<Rightarrow> SchedulerState" where
  "onDndDragEnd p s =
     (if \<not> canDrag p then s
      else if resizeSession s \<noteq> None then s
      else (case (draggingId s, dragPreview s) of
              (None, _) \<Rightarrow> resetDragState p s
            | (_, None) \<Rightarrow> resetDragState p s
            | (Some i, Some (DragPreviewGrid key slot)) \<Rightarrow>
                if i = 0 then resetDragState p s
                else (case parseDayKey key of
                        Some (Valid_Date day) \<Rightarrow>
                          resetDragState p
                            (moveAppointment p i
                               (dayWithMinutes day (START_MINUTES p + slot * SLOT_MINUTES p)) s)
                      | _ \<Rightarrow> resetDragState p s)
            | (Some i, Some (DragPreviewMonth key)) \<Rightarrow>
                if i = 0 then resetDragState p s
                else (case (parseDayKey key,
                            find (\<lambda>entry. Some (id' entry) = draggingId s) (appointments s)) of
                        (Some (Valid_Date day), Some source) \<Rightarrow>
                          resetDragState p
                            (moveAppointment p i
                               (setHours day (getHours (startDate source))
                                  (getMinutes (startDate source)) 0 0) s)
                      | _ \<Rightarrow> resetDragState p s)))"

subsection \<open>Resizing\<close>

definition stopResizing :: "SchedulerProps \<Rightarrow> bool \<Rightarrow> SchedulerState \<Rightarrow> SchedulerState" where
  "stopResizing p commit s =
     (let s1 = s\<lparr>resizeListeners := False, globalResizeCursor := False,
                 resizeSession := None, resizeDraftRef := None,
                 pendingResizeDraft := pendingResizeDraft s @ [SetDraft None]\<rparr>
      in (case (resizeSession s, resizeDraftRef s) of
            (Some active, Some draft) \<Rightarrow>
              (let changed = (minutesOfDay (rd_startDate draft) \<noteq> rs_startMinutes active
                              \<or> minutesOfDay (rd_endDate draft) \<noteq> rs_endMinutes active)
               in if commit \<and> rd_id draft = rs_id active \<and> changed
                  then resizeAppointment p (rs_id active) (rd_startDate draft) (rd_endDate draft) s1
                  else s1)
          | _ \<Rightarrow> s1))"

text \<open>A pointer-down on a resize handle of \<open>entry\<close>.\<close>

definition startResize ::
  "SchedulerProps \<Rightarrow> Appointment \<Rightarrow> ResizeEdge \<Rightarrow> int \<Rightarrow> rat \<Rightarrow> SchedulerState \<Rightarrow> SchedulerState" where
  "startResize p entry edge button clientY s =
     (if \<not> canResize p then s
      else if button \<noteq> 0 then s
      else (let s1 = (if truthy (draggingId s) then resetDragState p s else s);
                s2 = stopCreateSelection p False s1;
                session = \<lparr> rs_id = id' entry, rs_edge = edge,
                            rs_day = startOfDay (startDate entry),
                            rs_pointerStartY = clientY,
                            rs_startMinutes = minutesOfDay (startDate entry),
                            rs_endMinutes = minutesOfDay (endDate entry) \<rparr>;
                initialDraft = \<lparr> rd_id = id' entry, rd_startDate = startDate entry,
                                 rd_endDate = endDate entry \<rparr>
            in s2\<lparr>hoverSlot := None, globalResizeCursor := True,
                  resizeSession := Some session, resizeDraftRef := Some initialDraft,
                  pendingResizeDraft := pendingResizeDraft s2 @ [SetDraft (Some initialDraft)],
                  dragPreview := None, resizeListeners := True\<rparr>))"

text \<open>
  The minutes of the day a pointer at \<open>clientY\<close> asks for: the dragged edge follows the
  pointer in whole slots, clamped; the other edge stays.
\<close>

definition resizeTarget :: "SchedulerProps \<Rightarrow> ResizeSession \<Rightarrow> rat \<Rightarrow> int \<times> int" where
  "resizeTarget p active clientY =
     (let deltaSlots = Math_round ((clientY - rs_pointerStartY active) / SLOT_HEIGHT);
          deltaMinutes = deltaSlots * SLOT_MINUTES p;
          nextStartMinutes =
            (if rs_edge active = EdgeTop
             then clamp (rs_startMinutes active + deltaMinutes) (DAY_START_MINUTES p)
                    (rs_endMinutes active - SLOT_MINUTES p)
             else rs_startMinutes active);
          nextEndMinutes =
            (if rs_edge active = EdgeTop then rs_endMinutes active
             else clamp (rs_endMinutes active + deltaMinutes)
                    (rs_startMinutes active + SLOT_MINUTES p) (DAY_END_MINUTES p))
      in (nextStartMinutes, nextEndMinutes))"

text \<open>
  The pointer-move listener that \<open>startResize\<close> installs for the entry with id \<open>entryId\<close>.
  It hands \<open>setResizeDraft\<close> an updater function for the draft \<open>next\<close>.
\<close>

definition resizeOnMove :: "SchedulerProps \<Rightarrow> int \<Rightarrow> rat \<Rightarrow> SchedulerState \<Rightarrow> SchedulerState" where
  "resizeOnMove p entryId clientY s =
     (case resizeSession s of
        None \<Rightarrow> s
      | Some active \<Rightarrow>
          if rs_id active \<noteq> entryId then s
          else (let nextStart = dayWithMinutes (rs_day active) (fst (resizeTarget p active clientY));
                    nextEnd = dayWithMinutes (rs_day active) (snd (resizeTarget p active clientY));
                    next = \<lparr> rd_id = rs_id active, rd_startDate = nextStart, rd_endDate = nextEnd \<rparr>
                in s\<lparr>pendingResizeDraft := pendingResizeDraft s @ [MoveDraft next]\<rparr>))"

text \<open>
  One queued call of \<open>setResizeDraft\<close>, run on the state \<open>st\<close> of the draft and the ref
  \<open>rf\<close>. The updater of a pointer move keeps a previous draft with the same id, start and
  end; otherwise it stores the new draft in the ref and returns it. \<open>fresh\<close> tells whether
  the state holds an object made since the render began.
\<close>

fun runDraftUpdate ::
  "DraftUpdate \<Rightarrow> ResizeDraft option \<times> ResizeDraft option \<times> bool
     \<Rightarrow> ResizeDraft option \<times> ResizeDraft option \<times> bool" where
  "runDraftUpdate (SetDraft v) (st, rf, fresh) = (v, rf, v \<noteq> None)"
| "runDraftUpdate (MoveDraft next) (st, rf, fresh) =
     (case st of
        None \<Rightarrow> (Some next, Some next, True)
      | Some prev \<Rightarrow>
          if rd_id prev = rd_id next \<and> rd_startDate prev = rd_startDate next
             \<and> rd_endDate prev = rd_endDate next
          then (st, rf, fresh)
          else (Some next, Some next, True))"

text \<open>
  A render of the component, as far as the draft of a resize goes: the queued calls run in
  order, and when the state then holds another object than before, the effect
  \<^verbatim>\<open>resizeDraftRef.current = resizeDraft\<close> runs.
\<close>

definition render :: "SchedulerState \<Rightarrow> SchedulerState" where
  "render s =
     (let r = foldl (\<lambda>a u. runDraftUpdate u a) (resizeDraft s, resizeDraftRef s, False)
                (pendingResizeDraft s);
          st = fst r; rf = fst (snd r); fresh = snd (snd r);
          changed = (fresh \<or> (st = None \<and> resizeDraft s \<noteq> None))
      in s\<lparr>resizeDraft := st, resizeDraftRef := (if changed then st else rf),
            pendingResizeDraft := []\<rparr>)"

subsection \<open>Whole gestures\<close>

text \<open>
  What happens between the pointer-down of a resize and its release: pointer moves, and
  renders of the component. React renders whenever it gets to it, so that a pointer move
  may or may not have been rendered when the next event arrives.
\<close>

datatype ResizeEvent = PointerMove rat | Render

fun resizeEvent :: "SchedulerProps \<Rightarrow> int \<Rightarrow> SchedulerState \<Rightarrow> ResizeEvent \<Rightarrow> SchedulerState" where
  "resizeEvent p entryId s (PointerMove clientY) = resizeOnMove p entryId clientY s"
| "resizeEvent p entryId s Render = render s"

definition resizeEvents ::
  "SchedulerProps \<Rightarrow> Appointment \<Rightarrow> ResizeEdge \<Rightarrow> rat \<Rightarrow> ResizeEvent list
     \<Rightarrow> SchedulerState \<Rightarrow> SchedulerState" where
  "resizeEvents p entry edge y0 evs s =
     foldl (resizeEvent p (id' entry)) (startResize p entry edge 0 y0 s) evs"

text \<open>
  A resize gesture up to its release, every event rendered before the next: a pointer-down
  with the primary button at height \<open>y0\<close> on a handle of \<open>entry\<close>, then pointer moves to
  the heights \<open>ys\<close>. A create gesture up to its release: a mouse-down with the primary
  button on the empty column of \<open>day\<close>, then mouse moves. The release is
  \<open>stopResizing p True\<close>, respectively \<open>stopCreateSelection p True\<close>.
\<close>

definition resizeGesture ::
  "SchedulerProps \<Rightarrow> Appointment \<Rightarrow> ResizeEdge \<Rightarrow> rat \<Rightarrow> rat list
     \<Rightarrow> SchedulerState \<Rightarrow> SchedulerState" where
  "resizeGesture p entry edge y0 ys s =
     resizeEvents p entry edge y0 (Render # concat (map (\<lambda>y. [PointerMove y, Render]) ys)) s"

text \<open>
  The pointer move that had last been rendered when the events \<open>evs\<close> were over, if any:
  the first component of \<open>renderedMove\<close>; the second is the last move since the last render.
\<close>

fun renderedMove :: "rat option \<times> rat option \<Rightarrow> ResizeEvent \<Rightarrow> rat option \<times> rat option" where
  "renderedMove (done, waiting) (PointerMove y) = (done, Some y)"
| "renderedMove (done, waiting) Render =
     (case waiting of None \<Rightarrow> (done, None) | Some y \<Rightarrow> (Some y, None))"

definition lastRenderedMove :: "ResizeEvent list \<Rightarrow> rat option" where
  "lastRenderedMove evs = fst (foldl renderedMove (None, None) evs)"

text \<open>The draft of a resize session for a pointer at \<open>clientY\<close>, and for no pointer move.\<close>

definition sessionOf :: "Appointment \<Rightarrow> ResizeEdge \<Rightarrow> rat \<Rightarrow> ResizeSession" where
  "sessionOf entry edge y0 =
     \<lparr> rs_id = id' entry, rs_edge = edge, rs_day = startOfDay (startDate entry),
       rs_pointerStartY = y0, rs_startMinutes = minutesOfDay (startDate entry),
       rs_endMinutes = minutesOfDay (endDate entry) \<rparr>"

definition draftAt :: "SchedulerProps \<Rightarrow> ResizeSession \<Rightarrow> rat \<Rightarrow> ResizeDraft" where
  "draftAt p active clientY =
     \<lparr> rd_id = rs_id active,
       rd_startDate = dayWithMinutes (rs_day active) (fst (resizeTarget p active clientY)),
       rd_endDate = dayWithMinutes (rs_day active) (snd (resizeTarget p active clientY)) \<rparr>"

definition releasedDraft ::
  "SchedulerProps \<Rightarrow> Appointment \<Rightarrow> ResizeEdge \<Rightarrow> rat \<Rightarrow> ResizeEvent list \<Rightarrow> ResizeDraft" where
  "releasedDraft p entry edge y0 evs =
     (case lastRenderedMove evs of
        None \<Rightarrow> \<lparr> rd_id = id' entry, rd_startDate = startDate entry, rd_endDate = endDate entry \<rparr>
      | Some y \<Rightarrow> draftAt p (sessionOf entry edge y0) y)"

definition createGesture ::
  "SchedulerProps \<Rightarrow> date \<Rightarrow> rat \<Rightarrow> DOMRect \<Rightarrow> rat list
     \<Rightarrow> SchedulerState \<Rightarrow> SchedulerState" where
  "createGesture p day y0 rect ys s =
     foldl (\<lambda>st y. createOnMove p y st) (startCreateSelection p day 0 False y0 rect s) ys"

text \<open>
  A create gesture in progress since state \<open>s\<close>: there is a draft for the day, its slots
  lie in the day, and nothing else that a creation request reads has changed.
\<close>

definition creating :: "SchedulerProps \<Rightarrow> date \<Rightarrow> SchedulerState \<Rightarrow> SchedulerState \<Rightarrow> bool" where
  "creating p day s s' \<longleftrightarrow>
     (\<exists>d. createDraft s' = Some d \<and> cd_dayDate d = startOfDay day
        \<and> 0 \<le> cd_startSlot d \<and> cd_startSlot d < SLOT_COUNT p
        \<and> 0 \<le> cd_endSlot d \<and> cd_endSlot d < SLOT_COUNT p)
     \<and> calls s' = calls s \<and> appointments s' = appointments s
     \<and> projectFilter s' = projectFilter s \<and> taskTypeFilter s' = taskTypeFilter s"

text \<open>What a call proposes: the time range of a created entry, in milliseconds.\<close>

fun createdRange :: "Callback \<Rightarrow> (date \<times> date) option" where
  "createdRange (TaskCreate draft context) = Some (draft_startDate draft, draft_endDate draft)"
| "createdRange (TasksChange entries) = None"

section \<open>Day layout\<close>

text \<open>
  \<open>buildDayLayout\<close>: the entries of a day are sorted by start (the sort is stable) and
  placed one after the other in the first lane that has ended by the start of the entry, or
  in a new lane. \<open>findIndex\<close> gives \<open>None\<close> where the array method gives \<open>-1\<close>; the state of
  the loop is the array \<open>laneEnds\<close> and the map \<open>laneById\<close>.
\<close>

record DayLayout =
  laneById :: "int \<rightharpoonup> nat"
  laneCount :: nat

fun findIndex :: "('a \<Rightarrow> bool) \<Rightarrow> 'a list \<Rightarrow> nat option" where
  "findIndex p [] = None"
| "findIndex p (x # xs) = (if p x then Some 0 else map_option Suc (findIndex p xs))"

definition placeEntry ::
  "int \<Rightarrow> int list \<times> (int \<rightharpoonup> nat) \<Rightarrow> Appointment \<Rightarrow> int list \<times> (int \<rightharpoonup> nat)" where
  "placeEntry slotMinutes st entry =
     (let laneEnds = fst st; byId = snd st;
          start = minutesOfDay (startDate entry);
          end1 = start + durationMinutes entry slotMinutes
      in case findIndex (\<lambda>laneEnd. start \<ge> laneEnd) laneEnds of
           None \<Rightarrow> (laneEnds @ [end1], byId(id' entry \<mapsto> length laneEnds))
         | Some lane \<Rightarrow> (laneEnds[lane := end1], byId(id' entry \<mapsto> lane)))"

definition buildDayLayout :: "Appointment list \<Rightarrow> int \<Rightarrow> DayLayout" where
  "buildDayLayout entries slotMinutes =
     (let sorted = sort_key startDate entries;
          st = foldl (placeEntry slotMinutes) ([], Map.empty) sorted
      in \<lparr> laneById = snd st, laneCount = max 1 (length (fst st)) \<rparr>)"

text \<open>
  The interval an entry occupies in its lane, in minutes of the day: from the minute of its
  start to that minute plus its rounded duration, which is at least one slot. Two entries
  overlap when their intervals share an instant; the depth at an instant is the number of
  entries whose interval contains it.
\<close>

definition entryStart :: "Appointment \<Rightarrow> int" where
  "entryStart entry = minutesOfDay (startDate entry)"

definition entryEnd :: "int \<Rightarrow> Appointment \<Rightarrow> int" where
  "entryEnd slotMinutes entry = entryStart entry + durationMinutes entry slotMinutes"

definition covers :: "int \<Rightarrow> Appointment \<Rightarrow> int \<Rightarrow> bool" where
  "covers slotMinutes entry t \<longleftrightarrow> entryStart entry \<le> t \<and> t < entryEnd slotMinutes entry"

definition overlapping :: "int \<Rightarrow> Appointment \<Rightarrow> Appointment \<Rightarrow> bool" where
  "overlapping slotMinutes a b \<longleftrightarrow>
     max (entryStart a) (entryStart b) < min (entryEnd slotMinutes a) (entryEnd slotMinutes b)"

definition depthAt :: "int \<Rightarrow> Appointment list \<Rightarrow> int \<Rightarrow> nat" where
  "depthAt slotMinutes entries t = length (filter (\<lambda>e. covers slotMinutes e t) entries)"

text \<open>
  The invariant of the loop, for the entries placed so far: every entry has a lane, no lane
  ends before an entry in it; every lane ends with one of its entries; entries of one lane
  do not overlap; and some instant is as deep as there are lanes.
\<close>

definition packed :: "int \<Rightarrow> Appointment list \<Rightarrow> int list \<times> (int \<rightharpoonup> nat) \<Rightarrow> bool" where
  "packed slotMinutes placed st \<longleftrightarrow>
     (\<forall>e\<in>set placed. \<exists>k<length (fst st).
         snd st (id' e) = Some k \<and> entryEnd slotMinutes e \<le> fst st ! k)
     \<and> (\<forall>k<length (fst st). \<exists>e\<in>set placed.
         snd st (id' e) = Some k \<and> entryEnd slotMinutes e = fst st ! k)
     \<and> (\<forall>a\<in>set placed. \<forall>b\<in>set placed.
         id' a \<noteq> id' b \<and> snd st (id' a) = snd st (id' b) \<longrightarrow> \<not> overlapping slotMinutes a b)
     \<and> (fst st \<noteq> [] \<longrightarrow> (\<exists>t. length (fst st) \<le> depthAt slotMinutes placed t))"

text \<open>
  The number of entries that are under way at an instant, an entry being under way from
  its start date to its end date, the end excluded.
\<close>

definition underWayAt :: "Appointment list \<Rightarrow> date \<Rightarrow> nat" where
  "underWayAt entries t = length (filter (\<lambda>e. startDate e \<le> t \<and> t < endDate e) entries)"

section \<open>Example inputs\<close>

definition item0905 :: SchedulerTaskItemProps where
  "item0905 = \<lparr> item_id = 1, item_text = ''Stand-up'',
      item_startDate = 32400000, item_endDate = 32700000,
      item_projectId = 1, item_taskType = ''meeting'',
      item_description = None, item_timeSpent = None,
      item_issueKey = None, item_completed = None \<rparr>"

text \<open>\<^verbatim>\<open>new Date(2026, 1, d, h, m)\<close>: a time on a day of February 2026.\<close>

definition feb2026 :: "int \<Rightarrow> int \<Rightarrow> int \<Rightarrow> date" where
  "feb2026 d h m = (20484 + d) * msPerDay + h * msPerHour + m * msPerMinute"

text \<open>The configuration and the seed data of the application.\<close>

definition appConfig :: SchedulerConfig where
  "appConfig = \<lparr> cfg_startTime = Some (Valid_Date (date_2026_01_01 + 570 * msPerMinute)),
                  cfg_endTime = Some (Valid_Date (date_2026_01_01 + 1170 * msPerMinute)),
                  cfg_blockMinutes = Some 15 \<rparr>"

definition defaultProjects :: "Project list" where
  "defaultProjects =
     [\<lparr> project_id = 1, project_text = ''Project Alpha'', project_color = ''#0052cc'' \<rparr>,
      \<lparr> project_id = 2, project_text = ''Project Beta'', project_color = ''#0c66e4'' \<rparr>,
      \<lparr> project_id = 3, project_text = ''Project Gamma'', project_color = ''#1f845a'' \<rparr>,
      \<lparr> project_id = 4, project_text = ''Internal Tasks'', project_color = ''#a54800'' \<rparr>]"

definition defaultTaskTypes :: "TaskType list" where
  "defaultTaskTypes =
     [\<lparr> type_id = ''development'', type_text = ''Development'', type_billable = True \<rparr>,
      \<lparr> type_id = ''meeting'', type_text = ''Meeting'', type_billable = False \<rparr>,
      \<lparr> type_id = ''review'', type_text = ''Code Review'', type_billable = True \<rparr>,
      \<lparr> type_id = ''bugfix'', type_text = ''Bug Fix'', type_billable = True \<rparr>,
      \<lparr> type_id = ''documentation'', type_text = ''Documentation'', type_billable = True \<rparr>,
      \<lparr> type_id = ''testing'', type_text = ''Testing'', type_billable = True \<rparr>]"

definition appProps :: SchedulerProps where
  "appProps = \<lparr> config = appConfig, canDrag = True, canResize = True, canCreate = True,
                 projects = defaultProjects, taskTypes = defaultTaskTypes \<rparr>"

definition seedEntry ::
  "int \<Rightarrow> string \<Rightarrow> date \<Rightarrow> date \<Rightarrow> int \<Rightarrow> string \<Rightarrow> string \<Rightarrow> rat \<Rightarrow> Appointment" where
  "seedEntry i title start end1 project type note hours =
     \<lparr> id' = i, text' = title, startDate = start, endDate = end1, projectId = project,
       taskType = type, description = note, timeSpent = hours,
       issueKey = None, completed = None \<rparr>"

definition designReview :: Appointment where
  "designReview =
     seedEntry 1 ''Design Review'' (feb2026 9 9 30) (feb2026 9 11 30) 1 ''meeting''
       ''Review design mockups'' 2"

definition initialAppointments :: "Appointment list" where
  "initialAppointments =
     [designReview,
      seedEntry 2 ''Backend Development'' (feb2026 9 9 30) (feb2026 9 13 30) 2 ''development''
        ''Implement REST API'' 4,
      seedEntry 3 ''Code Review'' (feb2026 10 9 30) (feb2026 10 11 0) 2 ''review''
        ''Review pull requests'' (3 / 2),
      seedEntry 4 ''Sprint Planning'' (feb2026 10 9 30) (feb2026 10 11 30) 1 ''meeting''
        ''Plan sprint'' 2,
      seedEntry 5 ''Bug Fixes'' (feb2026 11 9 30) (feb2026 11 12 30) 3 ''bugfix''
        ''Fix production bugs'' 3]"

text \<open>An entry of the first project, a meeting without a description, for the examples.\<close>

definition mkEntry :: "int \<Rightarrow> string \<Rightarrow> date \<Rightarrow> date \<Rightarrow> rat \<Rightarrow> Appointment" where
  "mkEntry i title start end1 hours =
     \<lparr> id' = i, text' = title, startDate = start, endDate = end1, projectId = 1,
       taskType = ''meeting'', description = [], timeSpent = hours,
       issueKey = None, completed = None \<rparr>"

text \<open>The day columns of the week of 9 February 2026, each 120 wide and 96 slots high.\<close>

definition column :: "int \<Rightarrow> string \<times> DOMRect" where
  "column d = (dayKey (feb2026 d 0 0),
     \<lparr> rect_left = 80 + 120 * of_int (d - 9), rect_top = 100,
       rect_width = 120, rect_height = 2880 \<rparr>)"

definition idleState :: "Appointment list \<Rightarrow> SchedulerState" where
  "idleState entries =
     \<lparr> appointments = entries, currentView = ViewWeek, projectFilter = None,
       taskTypeFilter = None, draggingId = None, dragPreview = None,
       dragOverlayWidth = None, dragOverlayHeight = None, dragPointer = None,
       hoveredEntryId = None, hoverSlot = None, createDraft = None, settleEntryId = None,
       settleFrame = None,
       resizeSession = None, resizeDraft = None, resizeDraftRef = None,
       pendingResizeDraft = [], dragAnchorSlot = 0, dragAnchorPx = (0, 0),
       dragStartPointer = None, resizeListeners = False, createListeners = False,
       globalResizeCursor = False,
       gridDayRefs = map column [9, 10, 11, 12, 13, 14, 15],
       monthDayRefs = [], calls = [] \<rparr>"

text \<open>A five-minute entry whose hours were entered by hand.\<close>

definition shortEntry :: Appointment where
  "shortEntry = mkEntry 7 ''Stand-up'' (feb2026 9 9 0) (feb2026 9 9 5) 2"




text \<open>The application with sixty-minute blocks.\<close>

definition props60 :: SchedulerProps where
  "props60 = appProps\<lparr>config := appConfig\<lparr>cfg_blockMinutes := Some 60\<rparr>\<rparr>"

text \<open>The first seed entry, grabbed a little below its top edge.\<close>

definition draggingState :: SchedulerState where
  "draggingState =
     onDndDragStart appProps (Some 1)
       (Some \<lparr> rect_left = 80, rect_top = 385, rect_width = 60, rect_height = 240 \<rparr>)
       (Some (100, 400)) (idleState initialAppointments)"

text \<open>An entry of the last half hour of a day; it ends at midnight.\<close>

definition lateEntry :: Appointment where
  "lateEntry = mkEntry 8 ''Wrap-up'' (feb2026 9 23 30) (feb2026 10 0 0) (1 / 2)"

text \<open>
  Three entries of Monday 9 February in the order of insertion, the last one starting when
  the design review ends; and a ten-minute entry that starts five minutes after the
  five-minute stand-up has ended.
\<close>

definition mondayEntries :: "Appointment list" where
  "mondayEntries =
     [mkEntry 6 ''Retrospective'' (feb2026 9 11 30) (feb2026 9 12 0) (1 / 2),
      designReview,
      seedEntry 2 ''Backend Development'' (feb2026 9 9 30) (feb2026 9 13 30) 2 ''development''
        ''Implement REST API'' 4]"

definition followUp :: Appointment where
  "followUp = mkEntry 9 ''Follow-up'' (feb2026 9 9 10) (feb2026 9 9 20) (1 / 6)"

section \<open>Basic facts\<close>

lemma Math_round_div: "Math_round (of_int x / 60000) = (x + 30000) div 60000"
proof -
  have "(of_int x / 60000 + 1 / 2 :: rat) = of_int (x + 30000) / of_int 60000"
    by (simp add: field_simps)
  then show ?thesis
    unfolding Math_round_def by (simp only: floor_divide_of_int_eq)
qed

lemma durationMinutes_eq:
  "durationMinutes entry b = max b ((endDate entry - startDate entry + 30000) div 60000)"
  by (simp only: durationMinutes_def Math_round_div)

lemma durationMinutes_ge: "b \<le> durationMinutes entry b"
  by (simp add: durationMinutes_def)

lemma floor_div_int: "Math_floor (of_int a / of_int b) = a div b"
  by (simp add: Math_floor_def floor_divide_of_int_eq)

lemma floor_div_numeral: "Math_floor (numeral n / of_int b) = numeral n div b"
  using floor_div_int [of "numeral n" b] by simp

lemma ceil_div_int: "Math_ceil (of_int a / of_int b) = - ((- a) div b)"
  by (simp add: Math_ceil_def ceiling_divide_eq_div)

lemma round_div_int: "0 < b \<Longrightarrow> Math_round (of_int a / of_int b) = (2 * a + b) div (2 * b)"
proof -
  assume b: "0 < b"
  have "(of_int a / of_int b + 1 / 2 :: rat) = of_int (2 * a + b) / of_int (2 * b)"
    using b by (simp add: field_simps)
  then show ?thesis
    unfolding Math_round_def by (simp only: floor_divide_of_int_eq)
qed

lemma hours2_eq: "hours2 m = of_int ((10 * m + 3) div 6) / 100"
proof -
  have "(of_int m / 60 * 100 + 1 / 2 :: rat) = of_int (10 * m + 3) / of_int 6"
    by (simp add: field_simps)
  then have "Math_round (of_int m / 60 * 100) = (10 * m + 3) div 6"
    unfolding Math_round_def by (simp only: floor_divide_of_int_eq)
  then show ?thesis by (simp add: hours2_def)
qed

lemma timeline_fields:
  "blockMinutes (resolvedTimeline c) = blockOf c"
  "slotCount (resolvedTimeline c) = max 1 (1440 div blockOf c)"
  "startMinutes (resolvedTimeline c) = 0"
  "dayStartMinutes (resolvedTimeline c) = 0"
  "dayEndMinutes (resolvedTimeline c) = max 1 (1440 div blockOf c) * blockOf c"
  "defaultTaskMinutes (resolvedTimeline c) = max 30 (blockOf c)"
  by (simp_all add: resolvedTimeline_def Let_def floor_div_numeral
      MAX_DAY_MINUTES_def MIN_DAY_MINUTES_def)

lemma app15: "SLOT_MINUTES appProps = 15" "SLOT_COUNT appProps = 96" "START_MINUTES appProps = 0"
  "DAY_START_MINUTES appProps = 0" "DAY_END_MINUTES appProps = 1440" "DEFAULT_TASK_MINUTES appProps = 30"
  by (simp_all add: SLOT_MINUTES_def SLOT_COUNT_def START_MINUTES_def DAY_START_MINUTES_def
     DAY_END_MINUTES_def DEFAULT_TASK_MINUTES_def timeline_fields blockOf_def appProps_def appConfig_def)

lemma app_flags: "canDrag appProps" "canResize appProps" "canCreate appProps"
  "projects appProps = defaultProjects" "taskTypes appProps = defaultTaskTypes"
  by (simp_all add: appProps_def)

lemma durationMinutes_whole:
  "endDate a - startDate a = k * 60000 \<Longrightarrow> durationMinutes a b = max b k"
  by (simp add: durationMinutes_eq)

lemmas ms_defs = msPerDay_def msPerHour_def msPerMinute_def

lemma minutesOfDay_eq: "minutesOfDay d = (d div 60000) mod 1440"
proof -
  have 1: "d div 3600000 = d div 60000 div 60"
    using zdiv_zmult2_eq [of 60 d 60000] by simp
  have 2: "(d div 60000) mod 1440 = 60 * (d div 60000 div 60 mod 24) + d div 60000 mod 60"
    using zmod_zmult2_eq [of 24 "d div 60000" 60] by simp
  show ?thesis
    unfolding minutesOfDay_def getHours_def getMinutes_def HourFromTime_def MinFromTime_def ms_defs
    by (simp only: 1 2)
qed

lemma startOfDay_eq: "startOfDay d = (d div 86400000) * 86400000"
  by (simp add: startOfDay_def setHours_def Day_def ms_defs)

lemma dayWithMinutes_eq: "dayWithMinutes d m = (d div 86400000) * 86400000 + m * 60000"
  by (simp add: dayWithMinutes_def setMinutes_def startOfDay_eq Day_def HourFromTime_def ms_defs)

section \<open>Moving an entry\<close>

text \<open>
  C3, as stated, fails: moving a five-minute entry with hand-entered hours, the block
  being fifteen minutes, makes it fifteen minutes long and recomputes its hours.
\<close>

theorem moveAppointment_short_entry_grows:
  "map (\<lambda>a. (endDate a - startDate a, timeSpent a)) (appointments (idleState [shortEntry]))
     = [(5 * 60000, 2)]
   \<and> map (\<lambda>a. (endDate a - startDate a, timeSpent a))
       (appointments (moveAppointment appProps 7 (feb2026 9 10 0) (idleState [shortEntry])))
     = [(15 * 60000, 1 / 4)]"
  by (simp add: moveAppointment_def updateAppointments_def queueSettleAnimation_def movedEntry_def
      idleState_def shortEntry_def mkEntry_def feb2026_def app15 app_flags durationMinutes_eq
      hours2_eq ms_defs Let_def)

text \<open>
  C3 (amended): a committed move (dragging enabled) maps \<open>movedEntry\<close> over the
  snapshot. Entries with another id are unchanged. The entry with the id starts at the
  target instant and lasts \<open>durationMinutes\<close> minutes, its former length rounded to whole
  minutes and raised to one block, so its length is unchanged when it was a whole number of
  minutes of at least one block; its hours are recomputed from that duration, and its id,
  title, project, task type, description, issue key and completion flag are kept.
\<close>

theorem moveAppointment_commit:
  assumes "canDrag p"
  shows "appointments (moveAppointment p i t s) = map (movedEntry p i t) (appointments s)
    \<and> (\<forall>a. id' a \<noteq> i \<longrightarrow> movedEntry p i t a = a)
    \<and> (\<forall>a. id' a = i \<longrightarrow>
          startDate (movedEntry p i t a) = t
          \<and> endDate (movedEntry p i t a) - startDate (movedEntry p i t a)
              = durationMinutes a (SLOT_MINUTES p) * 60000
          \<and> timeSpent (movedEntry p i t a) = hours2 (durationMinutes a (SLOT_MINUTES p))
          \<and> id' (movedEntry p i t a) = id' a
          \<and> text' (movedEntry p i t a) = text' a
          \<and> projectId (movedEntry p i t a) = projectId a
          \<and> taskType (movedEntry p i t a) = taskType a
          \<and> description (movedEntry p i t a) = description a
          \<and> issueKey (movedEntry p i t a) = issueKey a
          \<and> completed (movedEntry p i t a) = completed a)
    \<and> (\<forall>a k. id' a = i \<and> endDate a - startDate a = k * 60000 \<and> SLOT_MINUTES p \<le> k \<longrightarrow>
          endDate (movedEntry p i t a) - startDate (movedEntry p i t a)
            = endDate a - startDate a)"
proof -
  have 1: "appointments (moveAppointment p i t s) = map (movedEntry p i t) (appointments s)"
    using assms
    by (simp add: moveAppointment_def updateAppointments_def queueSettleAnimation_def Let_def)
  have 2: "\<forall>a. id' a \<noteq> i \<longrightarrow> movedEntry p i t a = a"
    by (simp add: movedEntry_def)
  have 3: "\<forall>a. id' a = i \<longrightarrow>
          startDate (movedEntry p i t a) = t
          \<and> endDate (movedEntry p i t a) - startDate (movedEntry p i t a)
              = durationMinutes a (SLOT_MINUTES p) * 60000
          \<and> timeSpent (movedEntry p i t a) = hours2 (durationMinutes a (SLOT_MINUTES p))
          \<and> id' (movedEntry p i t a) = id' a
          \<and> text' (movedEntry p i t a) = text' a
          \<and> projectId (movedEntry p i t a) = projectId a
          \<and> taskType (movedEntry p i t a) = taskType a
          \<and> description (movedEntry p i t a) = description a
          \<and> issueKey (movedEntry p i t a) = issueKey a
          \<and> completed (movedEntry p i t a) = completed a"
    by (simp add: movedEntry_def Let_def)
  have 4: "\<forall>a k. id' a = i \<and> endDate a - startDate a = k * 60000 \<and> SLOT_MINUTES p \<le> k \<longrightarrow>
          endDate (movedEntry p i t a) - startDate (movedEntry p i t a)
            = endDate a - startDate a"
    by (auto simp add: movedEntry_def Let_def durationMinutes_whole)
  from 1 2 3 4 show ?thesis by blast
qed

theorem moveAppointment_commit_witness:
  "canDrag appProps
   \<and> map (\<lambda>a. (id' a, startDate a, endDate a - startDate a, timeSpent a))
       (appointments (moveAppointment appProps 1 (feb2026 10 14 0) (idleState initialAppointments)))
     = [(1, feb2026 10 14 0, 120 * 60000, 2),
        (2, feb2026 9 9 30, 240 * 60000, 4),
        (3, feb2026 10 9 30, 90 * 60000, 3 / 2),
        (4, feb2026 10 9 30, 120 * 60000, 2),
        (5, feb2026 11 9 30, 180 * 60000, 3)]"
  using moveAppointment_commit [OF app_flags(1), of 1 "feb2026 10 14 0" "idleState initialAppointments"]
  by (simp add: app_flags idleState_def initialAppointments_def designReview_def seedEntry_def mkEntry_def
      movedEntry_def feb2026_def app15 durationMinutes_eq hours2_eq ms_defs Let_def)

section \<open>Releasing a drag outside every drop zone\<close>

lemma stopCreateSelection_cancel:
  "appointments (stopCreateSelection p False s) = appointments s"
  "calls (stopCreateSelection p False s) = calls s"
  by (simp_all add: stopCreateSelection_def Let_def split: option.splits)

lemma resetDragState_frame:
  "appointments (resetDragState p s) = appointments s"
  "calls (resetDragState p s) = calls s"
  by (simp_all add: resetDragState_def stopCreateSelection_cancel)

lemma onDndDragEnd_no_preview:
  "dragPreview s = None \<Longrightarrow> onDndDragEnd p s = onDndDragCancel p s"
  by (simp add: onDndDragEnd_def onDndDragCancel_def split: option.splits)

lemma onDndDragCancel_frame:
  "appointments (onDndDragCancel p s) = appointments s"
  "calls (onDndDragCancel p s) = calls s"
  by (simp_all add: onDndDragCancel_def resetDragState_frame)

lemma onDndDragMove_no_zone:
  assumes "canDrag p" "resizeSession s = None" "truthy (draggingId s)"
    "dragStartPointer s = Some start"
    "findZoneAtPoint (zonesInView s) (fst start + fst delta) (snd start + snd delta) = None"
  shows "dragPreview (onDndDragMove p delta s) = None"
    "appointments (onDndDragMove p delta s) = appointments s"
    "calls (onDndDragMove p delta s) = calls s"
  using assms
  by (cases "currentView s = ViewMonth";
      simp add: onDndDragMove_def zonesInView_def Let_def split: option.splits)+

text \<open>
  C9: while an entry is dragged, a move that leaves the pointer outside every registered
  zone clears the drag preview, and the release that follows changes no appointment, makes
  no call, and leaves the state a cancel leaves.
\<close>

theorem drag_released_outside_zones:
  assumes "canDrag p" "resizeSession s = None" "truthy (draggingId s)"
    "dragStartPointer s = Some start"
    "findZoneAtPoint (zonesInView s) (fst start + fst delta) (snd start + snd delta) = None"
  shows "dragPreview (onDndDragMove p delta s) = None
    \<and> appointments (onDndDragEnd p (onDndDragMove p delta s)) = appointments s
    \<and> calls (onDndDragEnd p (onDndDragMove p delta s)) = calls s
    \<and> onDndDragEnd p (onDndDragMove p delta s) = onDndDragCancel p (onDndDragMove p delta s)"
  using onDndDragMove_no_zone [OF assms]
  by (simp add: onDndDragEnd_no_preview onDndDragCancel_frame)


theorem drag_released_outside_zones_witness:
  "canDrag appProps \<and> resizeSession draggingState = None \<and> truthy (draggingId draggingState)
   \<and> dragStartPointer draggingState = Some (100, 400)
   \<and> findZoneAtPoint (zonesInView draggingState) (100 + (- 500)) (400 + 0) = None
   \<and> dragPreview (onDndDragMove appProps (- 500, 0) draggingState) = None
   \<and> appointments (onDndDragEnd appProps (onDndDragMove appProps (- 500, 0) draggingState))
       = initialAppointments
   \<and> calls (onDndDragEnd appProps (onDndDragMove appProps (- 500, 0) draggingState)) = []"
proof -
  have d: "draggingId draggingState = Some 1" "resizeSession draggingState = None"
    "dragStartPointer draggingState = Some (100, 400)"
    "currentView draggingState = ViewWeek"
    "gridDayRefs draggingState = map column [9, 10, 11, 12, 13, 14, 15]"
    "appointments draggingState = initialAppointments" "calls draggingState = []"
    by (simp_all add: draggingState_def onDndDragStart_def app_flags idleState_def
        initialAppointments_def designReview_def seedEntry_def mkEntry_def stopCreateSelection_def Let_def)
  have h3: "truthy (draggingId draggingState)"
    by (simp add: d truthy_def)
  have h5: "findZoneAtPoint (zonesInView draggingState)
      (fst (100, 400) + fst (- 500, 0)) (snd (100, 400) + snd (- 500, 0)) = None"
    by (simp add: zonesInView_def d findZoneAtPoint_def column_def rect_right_def)
  note r = drag_released_outside_zones [OF app_flags(1) d(2) h3 d(3) h5]
  show ?thesis
    using r [THEN conjunct1] r [THEN conjunct2, THEN conjunct1]
      r [THEN conjunct2, THEN conjunct2, THEN conjunct1] h3 h5
    by (simp add: d app_flags)
qed

section \<open>Resizing an entry\<close>

lemma floor_rat_numeral: "\<lfloor>(numeral a :: rat) / numeral b\<rfloor> = numeral a div numeral b"
  using floor_divide_of_int_eq [of "numeral a" "numeral b", where ?'a = rat] by simp

lemma stopCreateSelection_cancel_draft:
  "resizeDraft (stopCreateSelection p False s) = resizeDraft s"
  "pendingResizeDraft (stopCreateSelection p False s) = pendingResizeDraft s"
  by (simp_all add: stopCreateSelection_def Let_def split: option.splits)

lemma resetDragState_draft:
  "resizeDraft (resetDragState p s) = resizeDraft s"
  "pendingResizeDraft (resetDragState p s) = pendingResizeDraft s"
  by (simp_all add: resetDragState_def stopCreateSelection_cancel_draft)

lemma startResize_state:
  assumes "canResize p"
  shows "resizeSession (startResize p e edge 0 y s) = Some (sessionOf e edge y)"
    and "resizeDraftRef (startResize p e edge 0 y s) =
           Some \<lparr> rd_id = id' e, rd_startDate = startDate e, rd_endDate = endDate e \<rparr>"
    and "pendingResizeDraft (startResize p e edge 0 y s) =
           pendingResizeDraft s
           @ [SetDraft (Some \<lparr> rd_id = id' e, rd_startDate = startDate e,
                               rd_endDate = endDate e \<rparr>)]"
    and "appointments (startResize p e edge 0 y s) = appointments s"
    and "calls (startResize p e edge 0 y s) = calls s"
  using assms
  by (simp_all add: startResize_def sessionOf_def Let_def stopCreateSelection_cancel
      resetDragState_frame stopCreateSelection_cancel_draft resetDragState_draft)

lemma resizeOnMove_session:
  assumes "resizeSession s = Some a" "rs_id a = i"
  shows "resizeOnMove p i y s
     = s\<lparr>pendingResizeDraft := pendingResizeDraft s @ [MoveDraft (draftAt p a y)]\<rparr>"
  using assms by (simp add: resizeOnMove_def draftAt_def Let_def)

lemma render_frame:
  "resizeSession (render s) = resizeSession s"
  "appointments (render s) = appointments s"
  "calls (render s) = calls s"
  "pendingResizeDraft (render s) = []"
  by (simp_all add: render_def Let_def)

subsection \<open>Rendering the queued drafts\<close>

lemma ResizeDraft_same:
  "(rd_id a = rd_id b \<and> rd_startDate a = rd_startDate b \<and> rd_endDate a = rd_endDate b)
     = (a = b)" for a b :: ResizeDraft
  by (cases a; cases b) auto

lemma runDraftUpdate_move:
  "runDraftUpdate (MoveDraft n) (Some d, rf, fr)
     = (if d = n then (Some d, rf, fr) else (Some n, Some n, True))"
  by (simp add: ResizeDraft_same)

lemma run_moves_fresh:
  "\<exists>rf'. foldl (\<lambda>a u. runDraftUpdate u a) (Some d, rf, True) (map MoveDraft ns)
     = (Some (last (d # ns)), rf', True)"
proof (induction ns arbitrary: d rf)
  case Nil
  then show ?case by simp
next
  case (Cons n ns)
  have "\<exists>rf1. runDraftUpdate (MoveDraft n) (Some d, rf, True) = (Some n, rf1, True)"
    unfolding runDraftUpdate_move by (cases "d = n") auto
  then obtain rf1 where 1: "runDraftUpdate (MoveDraft n) (Some d, rf, True) = (Some n, rf1, True)"
    by blast
  from Cons.IH [of n rf1] show ?case
    by (simp only: list.map foldl_Cons 1 last_ConsR [OF list.distinct(2)])
qed

lemma run_moves_synced:
  "\<exists>fr'. foldl (\<lambda>a u. runDraftUpdate u a) (Some d, Some d, fr) (map MoveDraft ns)
     = (Some (last (d # ns)), Some (last (d # ns)), fr')"
proof (induction ns arbitrary: d fr)
  case Nil
  then show ?case by simp
next
  case (Cons n ns)
  have "\<exists>fr1. runDraftUpdate (MoveDraft n) (Some d, Some d, fr) = (Some n, Some n, fr1)"
    unfolding runDraftUpdate_move by (cases "d = n") auto
  then obtain fr1 where 1: "runDraftUpdate (MoveDraft n) (Some d, Some d, fr) = (Some n, Some n, fr1)"
    by blast
  from Cons.IH [of n fr1] show ?case
    by (simp only: list.map foldl_Cons 1 last_ConsR [OF list.distinct(2)])
qed

lemma run_until_set:
  "\<exists>rf'. foldl (\<lambda>a u. runDraftUpdate u a) x (q @ [SetDraft (Some d)]) = (Some d, rf', True)"
proof -
  obtain st rf fr where "foldl (\<lambda>a u. runDraftUpdate u a) x q = (st, rf, fr)"
    by (cases "foldl (\<lambda>a u. runDraftUpdate u a) x q") auto
  then show ?thesis by simp
qed

lemma last_moves: "last (d # map f ws) = (if ws = [] then d else f (last ws))"
  by (simp add: last_map)

text \<open>
  The first render after the pointer-down, and a later render: the state and the ref then
  hold the draft of the last pointer move, or the draft they held when no move was queued.
\<close>

lemma render_first:
  assumes "pendingResizeDraft s = q @ [SetDraft (Some d)] @ map MoveDraft ns"
  shows "resizeDraft (render s) = Some (last (d # ns))"
    and "resizeDraftRef (render s) = Some (last (d # ns))"
proof -
  let ?run = "foldl (\<lambda>a u. runDraftUpdate u a)"
  obtain rf1 where 1: "?run (resizeDraft s, resizeDraftRef s, False) (q @ [SetDraft (Some d)])
      = (Some d, rf1, True)"
    using run_until_set by blast
  obtain rf2 where 2: "?run (Some d, rf1, True) (map MoveDraft ns) = (Some (last (d # ns)), rf2, True)"
    using run_moves_fresh by blast
  have "pendingResizeDraft s = (q @ [SetDraft (Some d)]) @ map MoveDraft ns"
    using assms by simp
  moreover have "?run (resizeDraft s, resizeDraftRef s, False)
        ((q @ [SetDraft (Some d)]) @ map MoveDraft ns)
      = ?run (?run (resizeDraft s, resizeDraftRef s, False) (q @ [SetDraft (Some d)]))
          (map MoveDraft ns)"
    by (rule foldl_append)
  ultimately have "?run (resizeDraft s, resizeDraftRef s, False) (pendingResizeDraft s)
      = (Some (last (d # ns)), rf2, True)"
    by (simp only: 1 2)
  then show "resizeDraft (render s) = Some (last (d # ns))"
    and "resizeDraftRef (render s) = Some (last (d # ns))"
    by (simp_all add: render_def Let_def)
qed

lemma render_later:
  assumes "pendingResizeDraft s = map MoveDraft ns"
    and "resizeDraft s = Some d" "resizeDraftRef s = Some d"
  shows "resizeDraft (render s) = Some (last (d # ns))"
    and "resizeDraftRef (render s) = Some (last (d # ns))"
proof -
  let ?run = "foldl (\<lambda>a u. runDraftUpdate u a)"
  obtain fr where "?run (Some d, Some d, False) (map MoveDraft ns)
      = (Some (last (d # ns)), Some (last (d # ns)), fr)"
    using run_moves_synced by blast
  then show "resizeDraft (render s) = Some (last (d # ns))"
    and "resizeDraftRef (render s) = Some (last (d # ns))"
    by (simp_all add: render_def Let_def assms)
qed

lemma render_move:
  assumes "pendingResizeDraft s = q @ [MoveDraft n]"
  shows "resizeDraft (render s) = Some n"
proof -
  let ?run = "foldl (\<lambda>a u. runDraftUpdate u a)"
  obtain st rf fr where 1: "?run (resizeDraft s, resizeDraftRef s, False) q = (st, rf, fr)"
    by (cases "?run (resizeDraft s, resizeDraftRef s, False) q") auto
  have "fst (runDraftUpdate (MoveDraft n) (st, rf, fr)) = Some n"
    by (cases st) (simp_all add: ResizeDraft_same)
  then show ?thesis
    by (simp add: render_def Let_def assms 1)
qed

subsection \<open>The draft at the release\<close>

text \<open>
  While a resize goes on, the session is the one of the pointer-down, nothing is called and
  no appointment changes, and the ref holds the draft of the pointer move that was last
  rendered, or else the entry's own times. The queue holds the moves since the last render,
  after the pointer-down itself as long as nothing has been rendered.
\<close>

lemma resizeEvents_state:
  assumes "canResize p"
  shows "resizeSession (resizeEvents p e edge y0 evs s) = Some (sessionOf e edge y0)
    \<and> appointments (resizeEvents p e edge y0 evs s) = appointments s
    \<and> calls (resizeEvents p e edge y0 evs s) = calls s
    \<and> resizeDraftRef (resizeEvents p e edge y0 evs s) = Some (releasedDraft p e edge y0 evs)
    \<and> (\<exists>q ws. pendingResizeDraft (resizeEvents p e edge y0 evs s)
              = q @ map MoveDraft (map (draftAt p (sessionOf e edge y0)) ws)
          \<and> snd (foldl renderedMove (None, None) evs) = (if ws = [] then None else Some (last ws))
          \<and> ((lastRenderedMove evs = None
               \<and> (\<exists>q0. q = q0 @ [SetDraft (Some \<lparr> rd_id = id' e, rd_startDate = startDate e,
                                                    rd_endDate = endDate e \<rparr>)]))
             \<or> (q = [] \<and> resizeDraft (resizeEvents p e edge y0 evs s)
                           = resizeDraftRef (resizeEvents p e edge y0 evs s))))"
proof (induction evs rule: rev_induct)
  case Nil
  note st = startResize_state [OF assms, of e edge y0 s]
  have "pendingResizeDraft (resizeEvents p e edge y0 [] s)
      = (pendingResizeDraft s @ [SetDraft (Some \<lparr> rd_id = id' e, rd_startDate = startDate e,
                                                   rd_endDate = endDate e \<rparr>)])
        @ map MoveDraft (map (draftAt p (sessionOf e edge y0)) [])"
    by (simp add: resizeEvents_def st)
  then show ?case
    by (simp add: resizeEvents_def st releasedDraft_def lastRenderedMove_def)
next
  case (snoc ev evs)
  let ?a = "sessionOf e edge y0"
  let ?init = "\<lparr> rd_id = id' e, rd_startDate = startDate e, rd_endDate = endDate e \<rparr>"
  let ?g = "resizeEvents p e edge y0 evs s"
  let ?r = "foldl renderedMove (None, None) evs"
  have g': "resizeEvents p e edge y0 (evs @ [x]) s = resizeEvent p (id' e) ?g x" for x
    by (simp add: resizeEvents_def)
  have r': "foldl renderedMove (None, None) (evs @ [x]) = renderedMove ?r x" for x
    by simp
  have ih: "resizeSession ?g = Some ?a" "appointments ?g = appointments s" "calls ?g = calls s"
    "resizeDraftRef ?g = Some (releasedDraft p e edge y0 evs)"
    using snoc.IH by simp_all
  obtain q ws where q: "pendingResizeDraft ?g = q @ map MoveDraft (map (draftAt p ?a) ws)"
    and w: "snd ?r = (if ws = [] then None else Some (last ws))"
    and ph: "(lastRenderedMove evs = None \<and> (\<exists>q0. q = q0 @ [SetDraft (Some ?init)]))
             \<or> (q = [] \<and> resizeDraft ?g = resizeDraftRef ?g)"
    using snoc.IH by blast
  have ida: "rs_id ?a = id' e" by (simp add: sessionOf_def)
  obtain dn wt where r: "?r = (dn, wt)" by (cases ?r) auto
  have dn: "lastRenderedMove evs = dn" by (simp add: lastRenderedMove_def r)
  have wt: "wt = (if ws = [] then None else Some (last ws))" using w r by simp
  show ?case
  proof (cases ev)
    case (PointerMove y)
    have m: "resizeEvents p e edge y0 (evs @ [ev]) s
        = ?g\<lparr>pendingResizeDraft := pendingResizeDraft ?g @ [MoveDraft (draftAt p ?a y)]\<rparr>"
      unfolding g' PointerMove by (simp add: resizeOnMove_session [OF ih(1) ida])
    have l: "lastRenderedMove (evs @ [ev]) = lastRenderedMove evs"
      "snd (foldl renderedMove (None, None) (evs @ [ev])) = Some y"
      using r by (simp_all add: lastRenderedMove_def PointerMove)
    have rel: "releasedDraft p e edge y0 (evs @ [ev]) = releasedDraft p e edge y0 evs"
      by (simp only: releasedDraft_def l(1))
    have pq: "pendingResizeDraft (resizeEvents p e edge y0 (evs @ [ev]) s)
        = q @ map MoveDraft (map (draftAt p ?a) (ws @ [y]))"
      unfolding m by (simp add: q)
    have "snd (foldl renderedMove (None, None) (evs @ [ev]))
        = (if ws @ [y] = [] then None else Some (last (ws @ [y])))"
      using l(2) by simp
    moreover have "(lastRenderedMove (evs @ [ev]) = None
               \<and> (\<exists>q0. q = q0 @ [SetDraft (Some ?init)]))
             \<or> (q = [] \<and> resizeDraft (resizeEvents p e edge y0 (evs @ [ev]) s)
                           = resizeDraftRef (resizeEvents p e edge y0 (evs @ [ev]) s))"
      using ph unfolding l m by simp
    ultimately have "\<exists>q ws. pendingResizeDraft (resizeEvents p e edge y0 (evs @ [ev]) s)
              = q @ map MoveDraft (map (draftAt p ?a) ws)
          \<and> snd (foldl renderedMove (None, None) (evs @ [ev]))
              = (if ws = [] then None else Some (last ws))
          \<and> ((lastRenderedMove (evs @ [ev]) = None
               \<and> (\<exists>q0. q = q0 @ [SetDraft (Some ?init)]))
             \<or> (q = [] \<and> resizeDraft (resizeEvents p e edge y0 (evs @ [ev]) s)
                           = resizeDraftRef (resizeEvents p e edge y0 (evs @ [ev]) s)))"
      using pq by blast
    moreover have "resizeSession (resizeEvents p e edge y0 (evs @ [ev]) s) = Some ?a"
      "appointments (resizeEvents p e edge y0 (evs @ [ev]) s) = appointments s"
      "calls (resizeEvents p e edge y0 (evs @ [ev]) s) = calls s"
      "resizeDraftRef (resizeEvents p e edge y0 (evs @ [ev]) s)
         = Some (releasedDraft p e edge y0 (evs @ [ev]))"
      unfolding m rel using ih by simp_all
    ultimately show ?thesis by blast
  next
    case Render
    have m: "resizeEvents p e edge y0 (evs @ [ev]) s = render ?g"
      unfolding g' Render by simp
    have l: "lastRenderedMove (evs @ [ev]) = (if ws = [] then dn else Some (last ws))"
      "snd (foldl renderedMove (None, None) (evs @ [ev])) = None"
      using r wt by (simp_all add: lastRenderedMove_def Render)
    define d where "d = releasedDraft p e edge y0 evs"
    have rel: "releasedDraft p e edge y0 (evs @ [ev])
        = last (d # map (draftAt p ?a) ws)"
      unfolding last_moves d_def by (simp add: releasedDraft_def l dn)
    have both: "resizeDraft (render ?g) = Some (last (d # map (draftAt p ?a) ws))
        \<and> resizeDraftRef (render ?g) = Some (last (d # map (draftAt p ?a) ws))"
      using ph
    proof
      assume a: "lastRenderedMove evs = None \<and> (\<exists>q0. q = q0 @ [SetDraft (Some ?init)])"
      then obtain q0 where q0: "q = q0 @ [SetDraft (Some ?init)]" by blast
      have di: "d = ?init" using a by (simp add: d_def releasedDraft_def)
      have "pendingResizeDraft ?g
          = q0 @ [SetDraft (Some d)] @ map MoveDraft (map (draftAt p ?a) ws)"
        by (simp add: q q0 di)
      from render_first [OF this] show ?thesis by simp
    next
      assume b: "q = [] \<and> resizeDraft ?g = resizeDraftRef ?g"
      have 1: "pendingResizeDraft ?g = map MoveDraft (map (draftAt p ?a) ws)"
        using b by (simp add: q)
      have 2: "resizeDraft ?g = Some d" "resizeDraftRef ?g = Some d"
        using b ih(4) by (simp_all add: d_def)
      from render_later [OF 1 2] show ?thesis by simp
    qed
    have "pendingResizeDraft (resizeEvents p e edge y0 (evs @ [ev]) s)
        = [] @ map MoveDraft (map (draftAt p ?a) [])"
      unfolding m by (simp add: render_frame)
    moreover have "snd (foldl renderedMove (None, None) (evs @ [ev]))
        = (if ([]::rat list) = [] then None else Some (last []))"
      using l(2) by simp
    moreover have "([]::DraftUpdate list) = []
        \<and> resizeDraft (resizeEvents p e edge y0 (evs @ [ev]) s)
            = resizeDraftRef (resizeEvents p e edge y0 (evs @ [ev]) s)"
      unfolding m using both by simp
    ultimately have "\<exists>q ws. pendingResizeDraft (resizeEvents p e edge y0 (evs @ [ev]) s)
              = q @ map MoveDraft (map (draftAt p ?a) ws)
          \<and> snd (foldl renderedMove (None, None) (evs @ [ev]))
              = (if ws = [] then None else Some (last ws))
          \<and> ((lastRenderedMove (evs @ [ev]) = None
               \<and> (\<exists>q0. q = q0 @ [SetDraft (Some ?init)]))
             \<or> (q = [] \<and> resizeDraft (resizeEvents p e edge y0 (evs @ [ev]) s)
                           = resizeDraftRef (resizeEvents p e edge y0 (evs @ [ev]) s)))"
      by blast
    moreover have "resizeSession (resizeEvents p e edge y0 (evs @ [ev]) s) = Some ?a"
      "appointments (resizeEvents p e edge y0 (evs @ [ev]) s) = appointments s"
      "calls (resizeEvents p e edge y0 (evs @ [ev]) s) = calls s"
      "resizeDraftRef (resizeEvents p e edge y0 (evs @ [ev]) s)
         = Some (releasedDraft p e edge y0 (evs @ [ev]))"
      unfolding m rel using ih both by (simp_all add: render_frame)
    ultimately show ?thesis by blast
  qed
qed

lemma renderedMove_gesture:
  "foldl renderedMove (dn, None) (concat (map (\<lambda>y. [PointerMove y, Render]) ys))
     = (if ys = [] then dn else Some (last ys), None)"
  by (induction ys arbitrary: dn) simp_all

lemma lastRenderedMove_gesture:
  "lastRenderedMove (Render # concat (map (\<lambda>y. [PointerMove y, Render]) ys))
     = (if ys = [] then None else Some (last ys))"
  by (simp add: lastRenderedMove_def renderedMove_gesture)

lemma resizeGesture_state:
  assumes "canResize p"
  shows "resizeSession (resizeGesture p e edge y0 ys s) = Some (sessionOf e edge y0)"
    and "appointments (resizeGesture p e edge y0 ys s) = appointments s"
    and "calls (resizeGesture p e edge y0 ys s) = calls s"
    and "resizeDraftRef (resizeGesture p e edge y0 ys s) =
           Some (if ys = []
                 then \<lparr> rd_id = id' e, rd_startDate = startDate e, rd_endDate = endDate e \<rparr>
                 else draftAt p (sessionOf e edge y0) (last ys))"
    and "resizeDraft (resizeGesture p e edge y0 ys s) = resizeDraftRef (resizeGesture p e edge y0 ys s)"
proof -
  let ?evs = "Render # concat (map (\<lambda>y. [PointerMove y, Render]) ys)"
  note inv = resizeEvents_state [OF assms, of e edge y0 ?evs s]
  show "resizeSession (resizeGesture p e edge y0 ys s) = Some (sessionOf e edge y0)"
    and "appointments (resizeGesture p e edge y0 ys s) = appointments s"
    and "calls (resizeGesture p e edge y0 ys s) = calls s"
    using inv by (simp_all add: resizeGesture_def)
  show "resizeDraftRef (resizeGesture p e edge y0 ys s) =
           Some (if ys = []
                 then \<lparr> rd_id = id' e, rd_startDate = startDate e, rd_endDate = endDate e \<rparr>
                 else draftAt p (sessionOf e edge y0) (last ys))"
    using inv by (simp add: resizeGesture_def releasedDraft_def lastRenderedMove_gesture)
  have "resizeEvents p e edge y0 ?evs s
      = render (resizeEvents p e edge y0 (butlast ?evs) s)"
    by (cases ys rule: rev_cases) (simp_all add: resizeEvents_def butlast_append)
  then have "pendingResizeDraft (resizeEvents p e edge y0 ?evs s) = []"
    by (simp only: render_frame)
  then show "resizeDraft (resizeGesture p e edge y0 ys s)
      = resizeDraftRef (resizeGesture p e edge y0 ys s)"
    using inv by (auto simp add: resizeGesture_def)
qed

lemma stopResizing_result:
  assumes "canResize p" "resizeSession s = Some a" "resizeDraftRef s = Some d" "rd_id d = rs_id a"
  shows "appointments (stopResizing p True s) =
      (if minutesOfDay (rd_startDate d) \<noteq> rs_startMinutes a
          \<or> minutesOfDay (rd_endDate d) \<noteq> rs_endMinutes a
       then map (resizedEntry p (rs_id a) (rd_startDate d) (rd_endDate d)) (appointments s)
       else appointments s)"
    and "calls (stopResizing p True s) =
      (if minutesOfDay (rd_startDate d) \<noteq> rs_startMinutes a
          \<or> minutesOfDay (rd_endDate d) \<noteq> rs_endMinutes a
       then calls s @ [TasksChange (map (resizedEntry p (rs_id a) (rd_startDate d) (rd_endDate d))
                                      (appointments s))]
       else calls s)"
  using assms
  by (simp_all add: stopResizing_def resizeAppointment_def updateAppointments_def
      queueSettleAnimation_def Let_def)

lemma designReview_fields:
  "id' designReview = 1" "startDate designReview = feb2026 9 9 30"
  "endDate designReview = feb2026 9 11 30"
  by (simp_all add: designReview_def seedEntry_def mkEntry_def)

lemma minutesOfDay_feb2026:
  "0 \<le> h \<Longrightarrow> h < 24 \<Longrightarrow> 0 \<le> m \<Longrightarrow> m < 60 \<Longrightarrow> minutesOfDay (feb2026 d h m) = h * 60 + m"
proof -
  assume a: "0 \<le> h" "h < 24" "0 \<le> m" "m < 60"
  have "feb2026 d h m = ((20484 + d) * 1440 + (h * 60 + m)) * 60000"
    by (simp add: feb2026_def ms_defs algebra_simps)
  then have 1: "feb2026 d h m div 60000 = (h * 60 + m) + (20484 + d) * 1440" by simp
  have 2: "0 \<le> h * 60 + m" "h * 60 + m < 1440" using a by auto
  have "((h * 60 + m) + (20484 + d) * 1440) mod 1440 = (h * 60 + m) mod 1440"
    by (rule mod_mult_self1)
  also have "\<dots> = h * 60 + m" using 2 by (rule mod_pos_pos_trivial)
  finally show ?thesis by (simp only: minutesOfDay_eq 1)
qed

lemma dayWithMinutes_feb2026:
  "0 \<le> h \<Longrightarrow> h < 24 \<Longrightarrow> 0 \<le> m \<Longrightarrow> m < 60 \<Longrightarrow>
     dayWithMinutes (feb2026 d h m) k = feb2026 d 0 0 + k * 60000"
proof -
  assume a: "0 \<le> h" "h < 24" "0 \<le> m" "m < 60"
  have "feb2026 d h m = (20484 + d) * 86400000 + (h * 3600000 + m * 60000)"
    by (simp add: feb2026_def ms_defs)
  moreover have "0 \<le> h * 3600000 + m * 60000" "h * 3600000 + m * 60000 < 86400000"
    using a by auto
  ultimately have "feb2026 d h m div 86400000 = 20484 + d"
    by simp
  then show ?thesis by (simp add: dayWithMinutes_eq feb2026_def ms_defs)
qed

lemma startOfDay_feb2026:
  "0 \<le> h \<Longrightarrow> h < 24 \<Longrightarrow> 0 \<le> m \<Longrightarrow> m < 60 \<Longrightarrow> startOfDay (feb2026 d h m) = feb2026 d 0 0"
  using dayWithMinutes_feb2026 [of h m d 0]
  by (simp add: dayWithMinutes_eq startOfDay_eq)

lemma lateEntry_fields:
  "id' lateEntry = 8" "startDate lateEntry = feb2026 9 23 30"
  "endDate lateEntry = feb2026 10 0 0"
  by (simp_all add: lateEntry_def mkEntry_def)

lemma sessionOf_id: "rs_id (sessionOf e edge y0) = id' e"
  by (simp add: sessionOf_def)

lemma releasedDraft_id: "rd_id (releasedDraft p e edge y0 evs) = rs_id (sessionOf e edge y0)"
  by (simp add: releasedDraft_def draftAt_def sessionOf_def split: option.splits)

lemma lateEntry_session:
  "sessionOf lateEntry EdgeTop 2920
     = \<lparr> rs_id = 8, rs_edge = EdgeTop, rs_day = feb2026 9 0 0, rs_pointerStartY = 2920,
         rs_startMinutes = 1410, rs_endMinutes = 0 \<rparr>"
  by (simp add: sessionOf_def lateEntry_fields startOfDay_feb2026 minutesOfDay_feb2026)

lemma lateEntry_target:
  "resizeTarget appProps (sessionOf lateEntry EdgeTop 2920) 2890 = (0, 0)"
  "resizeTarget appProps (sessionOf lateEntry EdgeTop 2920) 2920 = (0, 0)"
  unfolding lateEntry_session
  by (simp_all add: resizeTarget_def app15 SLOT_HEIGHT_def Math_round_def clamp_def Let_def)

text \<open>
  The top edge of the entry that ends at midnight, with one rendered pointer move that asks
  for the minutes 0 to 0: the draft, and what the release commits.
\<close>

lemma lateEntry_release:
  assumes "resizeTarget appProps (sessionOf lateEntry EdgeTop 2920) y = (0, 0)"
  shows "resizeDraftRef (resizeGesture appProps lateEntry EdgeTop 2920 [y] (idleState [lateEntry]))
      = Some \<lparr> rd_id = 8, rd_startDate = feb2026 9 0 0, rd_endDate = feb2026 9 0 0 \<rparr>"
    and "resizeDraft (resizeGesture appProps lateEntry EdgeTop 2920 [y] (idleState [lateEntry]))
      = Some \<lparr> rd_id = 8, rd_startDate = feb2026 9 0 0, rd_endDate = feb2026 9 0 0 \<rparr>"
    and "appointments (stopResizing appProps True
          (resizeGesture appProps lateEntry EdgeTop 2920 [y] (idleState [lateEntry])))
      = [lateEntry\<lparr>startDate := feb2026 9 0 0, endDate := feb2026 9 0 0, timeSpent := 1 / 4\<rparr>]"
    and "calls (stopResizing appProps True
          (resizeGesture appProps lateEntry EdgeTop 2920 [y] (idleState [lateEntry])))
      = [TasksChange
           [lateEntry\<lparr>startDate := feb2026 9 0 0, endDate := feb2026 9 0 0, timeSpent := 1 / 4\<rparr>]]"
proof -
  let ?s = "idleState [lateEntry]"
  let ?g = "resizeGesture appProps lateEntry EdgeTop 2920 [y] ?s"
  let ?d = "\<lparr> rd_id = 8, rd_startDate = feb2026 9 0 0, rd_endDate = feb2026 9 0 0 \<rparr>"
  have s: "appointments ?s = [lateEntry]" "calls ?s = []"
    by (simp_all add: idleState_def)
  note g = resizeGesture_state [OF app_flags(2), of lateEntry EdgeTop 2920 "[y]" ?s]
  have "draftAt appProps (sessionOf lateEntry EdgeTop 2920) y = ?d"
    unfolding draftAt_def assms
    by (simp add: lateEntry_session dayWithMinutes_feb2026)
  then show d: "resizeDraftRef ?g = Some ?d"
    using g(4) by simp
  then show "resizeDraft ?g = Some ?d"
    using g(5) by simp
  have i: "rd_id ?d = rs_id (sessionOf lateEntry EdgeTop 2920)"
    by (simp add: sessionOf_id lateEntry_fields)
  have m: "minutesOfDay (feb2026 9 0 0) = 0"
    using minutesOfDay_feb2026 [of 0 0 9] by simp
  have r: "map (resizedEntry appProps 8 (feb2026 9 0 0) (feb2026 9 0 0)) [lateEntry]
      = [lateEntry\<lparr>startDate := feb2026 9 0 0, endDate := feb2026 9 0 0, timeSpent := 1 / 4\<rparr>]"
    by (simp add: resizedEntry_def lateEntry_fields app15 hours2_eq Math_round_def Let_def)
  note res = stopResizing_result [OF app_flags(2) g(1) d i]
  show "appointments (stopResizing appProps True ?g)
      = [lateEntry\<lparr>startDate := feb2026 9 0 0, endDate := feb2026 9 0 0, timeSpent := 1 / 4\<rparr>]"
    using res(1) r by (simp add: m g(2) s lateEntry_session)
  show "calls (stopResizing appProps True ?g)
      = [TasksChange
           [lateEntry\<lparr>startDate := feb2026 9 0 0, endDate := feb2026 9 0 0, timeSpent := 1 / 4\<rparr>]]"
    using res(2) r by (simp add: m g(2) g(3) s lateEntry_session)
qed

text \<open>
  C4 fails on an entry that ends at midnight. Its end minute of the day is 0, so dragging
  its top edge clamps the start to the window start, 00:00, and the draft runs from 00:00
  to 00:00 of the entry's day: the start plus one block is not at or before the end, and the
  release commits an entry of length zero.
\<close>

theorem resize_top_edge_of_entry_ending_at_midnight:
  "resizeDraft (resizeGesture appProps lateEntry EdgeTop 2920 [2890] (idleState [lateEntry]))
     = Some \<lparr> rd_id = 8, rd_startDate = feb2026 9 0 0, rd_endDate = feb2026 9 0 0 \<rparr>
   \<and> appointments (stopResizing appProps True
        (resizeGesture appProps lateEntry EdgeTop 2920 [2890] (idleState [lateEntry])))
     = [lateEntry\<lparr>startDate := feb2026 9 0 0, endDate := feb2026 9 0 0, timeSpent := 1 / 4\<rparr>]"
  using lateEntry_release(2,3) [OF lateEntry_target(1)] by simp

text \<open>At that draft the start plus one block is after the end.\<close>

theorem resize_top_edge_of_entry_ending_at_midnight_witness:
  "map_option (\<lambda>d. rd_startDate d + SLOT_MINUTES appProps * 60000 \<le> rd_endDate d)
     (resizeDraft (resizeGesture appProps lateEntry EdgeTop 2920 [2890] (idleState [lateEntry])))
   = Some False"
  using resize_top_edge_of_entry_ending_at_midnight by (simp add: app15)

text \<open>
  C7 fails on the same entry. A pointer move of no slot at all, rendered before the release,
  asks for the start clamped to the end minus one block, and the end minute of the entry is
  0: the draft runs from 00:00 to 00:00, its start minute differs from the entry's 23:30,
  and the release at the slot where the gesture began commits an entry of length zero.
\<close>

theorem resize_release_at_start_slot_of_entry_ending_at_midnight:
  "Math_round ((2920 - 2920) / SLOT_HEIGHT) = 0
   \<and> resizeDraftRef (resizeGesture appProps lateEntry EdgeTop 2920 [2920] (idleState [lateEntry]))
     = Some \<lparr> rd_id = 8, rd_startDate = feb2026 9 0 0, rd_endDate = feb2026 9 0 0 \<rparr>
   \<and> calls (stopResizing appProps True
        (resizeGesture appProps lateEntry EdgeTop 2920 [2920] (idleState [lateEntry])))
     = [TasksChange
          [lateEntry\<lparr>startDate := feb2026 9 0 0, endDate := feb2026 9 0 0, timeSpent := 1 / 4\<rparr>]]"
proof -
  have "Math_round 0 = 0"
    unfolding Math_round_def by linarith
  then have "Math_round ((2920 - 2920) / SLOT_HEIGHT) = 0"
    by simp
  then show ?thesis
    using lateEntry_release(1,4) [OF lateEntry_target(2)] by simp
qed

text \<open>The entry that this release commits has the length zero.\<close>

theorem resize_release_at_start_slot_of_entry_ending_at_midnight_witness:
  "map (\<lambda>c. case c of TasksChange entries \<Rightarrow> map (\<lambda>e. endDate e - startDate e) entries
                 | TaskCreate draft context \<Rightarrow> [])
     (calls (stopResizing appProps True
        (resizeGesture appProps lateEntry EdgeTop 2920 [2920] (idleState [lateEntry]))))
   = [[0]]"
  using resize_release_at_start_slot_of_entry_ending_at_midnight by simp

lemma dayWithMinutes_mono:
  "m + b \<le> n \<Longrightarrow> dayWithMinutes d m + b * 60000 \<le> dayWithMinutes d n"
  by (simp add: dayWithMinutes_eq)

lemma dayWithMinutes_le: "m \<le> n \<Longrightarrow> dayWithMinutes d m \<le> dayWithMinutes d n"
  by (simp add: dayWithMinutes_eq)

lemma resizeTarget_bounds:
  "(rs_edge a = EdgeTop \<longrightarrow> snd (resizeTarget p a y) = rs_endMinutes a)
   \<and> (rs_edge a = EdgeBottom \<longrightarrow> fst (resizeTarget p a y) = rs_startMinutes a)
   \<and> (rs_edge a = EdgeTop \<and> DAY_START_MINUTES p + SLOT_MINUTES p \<le> rs_endMinutes a \<longrightarrow>
        DAY_START_MINUTES p \<le> fst (resizeTarget p a y)
        \<and> fst (resizeTarget p a y) + SLOT_MINUTES p \<le> snd (resizeTarget p a y))
   \<and> (rs_edge a = EdgeBottom \<and> rs_startMinutes a + SLOT_MINUTES p \<le> DAY_END_MINUTES p \<longrightarrow>
        snd (resizeTarget p a y) \<le> DAY_END_MINUTES p
        \<and> fst (resizeTarget p a y) + SLOT_MINUTES p \<le> snd (resizeTarget p a y))"
  by (auto simp add: resizeTarget_def clamp_def Let_def)

text \<open>
  Resize edge independence, and the one-block distance for baselines inside the window:
  after a pointer move of a resize session has been rendered, the draft's end is the
  session's end when the top edge is dragged, and its start is the session's start when the
  bottom edge is dragged. When the session's end minute is at least one block after the
  window start (top edge), respectively its start minute at least one block before the
  window end (bottom edge), the draft's start plus one block is at or before its end, the
  start is not before the window start and the end is not after the window end.
\<close>

theorem resize_move_keeps_one_block:
  assumes "resizeSession s = Some a" "rs_id a = i"
  shows "\<exists>d. resizeDraft (render (resizeOnMove p i y s)) = Some d
     \<and> (rs_edge a = EdgeTop \<longrightarrow> rd_endDate d = dayWithMinutes (rs_day a) (rs_endMinutes a))
     \<and> (rs_edge a = EdgeBottom \<longrightarrow>
          rd_startDate d = dayWithMinutes (rs_day a) (rs_startMinutes a))
     \<and> (rs_edge a = EdgeTop \<and> DAY_START_MINUTES p + SLOT_MINUTES p \<le> rs_endMinutes a \<longrightarrow>
          dayWithMinutes (rs_day a) (DAY_START_MINUTES p) \<le> rd_startDate d
          \<and> rd_startDate d + SLOT_MINUTES p * 60000 \<le> rd_endDate d)
     \<and> (rs_edge a = EdgeBottom \<and> rs_startMinutes a + SLOT_MINUTES p \<le> DAY_END_MINUTES p \<longrightarrow>
          rd_endDate d \<le> dayWithMinutes (rs_day a) (DAY_END_MINUTES p)
          \<and> rd_startDate d + SLOT_MINUTES p * 60000 \<le> rd_endDate d)"
proof -
  have "pendingResizeDraft (resizeOnMove p i y s)
      = pendingResizeDraft s @ [MoveDraft (draftAt p a y)]"
    by (simp add: resizeOnMove_session [OF assms])
  then have d: "resizeDraft (render (resizeOnMove p i y s)) = Some (draftAt p a y)"
    by (rule render_move)
  show ?thesis
    using resizeTarget_bounds [of a p y]
    by (auto simp add: d draftAt_def dayWithMinutes_eq)
qed

theorem resize_move_keeps_one_block_witness:
  "resizeDraft (render (resizeOnMove appProps 1 700
       (startResize appProps designReview EdgeBottom 0 625 (idleState initialAppointments))))
     = Some \<lparr> rd_id = 1, rd_startDate = feb2026 9 9 30, rd_endDate = feb2026 9 12 15 \<rparr>
   \<and> feb2026 9 9 30 + SLOT_MINUTES appProps * 60000 \<le> feb2026 9 12 15"
proof -
  let ?a = "\<lparr> rs_id = 1, rs_edge = EdgeBottom, rs_day = feb2026 9 0 0,
              rs_pointerStartY = 625, rs_startMinutes = 570, rs_endMinutes = 690 \<rparr>"
  let ?s = "startResize appProps designReview EdgeBottom 0 625 (idleState initialAppointments)"
  have sess: "resizeSession ?s = Some ?a"
    by (simp add: startResize_state [OF app_flags(2)] sessionOf_def designReview_fields
        startOfDay_feb2026 minutesOfDay_feb2026)
  have i: "rs_id ?a = 1" by simp
  have t1: "resizeTarget appProps ?a 700 = (570, 735)"
    by (simp add: resizeTarget_def app15 SLOT_HEIGHT_def Math_round_def clamp_def Let_def)
  have "pendingResizeDraft (resizeOnMove appProps 1 700 ?s)
      = pendingResizeDraft ?s @ [MoveDraft (draftAt appProps ?a 700)]"
    by (simp add: resizeOnMove_session [OF sess i])
  then have "resizeDraft (render (resizeOnMove appProps 1 700 ?s))
      = Some (draftAt appProps ?a 700)"
    by (rule render_move)
  then have d: "resizeDraft (render (resizeOnMove appProps 1 700 ?s))
     = Some \<lparr> rd_id = 1, rd_startDate = feb2026 9 9 30, rd_endDate = feb2026 9 12 15 \<rparr>"
    by (simp add: draftAt_def t1 dayWithMinutes_feb2026) (simp add: feb2026_def ms_defs)
  from resize_move_keeps_one_block [OF sess i, of appProps 700]
  show ?thesis by (simp add: d app15)
qed

subsection \<open>The release of any resize\<close>

text \<open>
  Whatever pointer moves and renders lie between the pointer-down and the release of a
  resize (resizing enabled), the release reads the draft of the pointer move that was last
  rendered, or the entry's own times when no move was rendered; it calls \<open>onTasksChange\<close>
  exactly when the minutes of the day of that draft's start or end differ from those of the
  entry, the call then carrying the snapshot with the entry resized to the draft; otherwise
  nothing is called and no appointment changes. A release before any pointer move was
  rendered calls nothing and changes nothing.
\<close>

theorem resize_release_commits_iff_draft_differs:
  assumes "canResize p"
  shows "resizeDraftRef (resizeEvents p e edge y0 evs s) = Some (releasedDraft p e edge y0 evs)
    \<and> calls (stopResizing p True (resizeEvents p e edge y0 evs s)) =
        (if minutesOfDay (rd_startDate (releasedDraft p e edge y0 evs)) \<noteq> minutesOfDay (startDate e)
            \<or> minutesOfDay (rd_endDate (releasedDraft p e edge y0 evs)) \<noteq> minutesOfDay (endDate e)
         then calls s @ [TasksChange (map (resizedEntry p (id' e)
                                            (rd_startDate (releasedDraft p e edge y0 evs))
                                            (rd_endDate (releasedDraft p e edge y0 evs)))
                                        (appointments s))]
         else calls s)
    \<and> appointments (stopResizing p True (resizeEvents p e edge y0 evs s)) =
        (if minutesOfDay (rd_startDate (releasedDraft p e edge y0 evs)) \<noteq> minutesOfDay (startDate e)
            \<or> minutesOfDay (rd_endDate (releasedDraft p e edge y0 evs)) \<noteq> minutesOfDay (endDate e)
         then map (resizedEntry p (id' e) (rd_startDate (releasedDraft p e edge y0 evs))
                     (rd_endDate (releasedDraft p e edge y0 evs))) (appointments s)
         else appointments s)
    \<and> (lastRenderedMove evs = None \<longrightarrow>
         calls (stopResizing p True (resizeEvents p e edge y0 evs s)) = calls s
         \<and> appointments (stopResizing p True (resizeEvents p e edge y0 evs s)) = appointments s)"
proof -
  let ?g = "resizeEvents p e edge y0 evs s"
  let ?d = "releasedDraft p e edge y0 evs"
  note inv = resizeEvents_state [OF assms, of e edge y0 evs s]
  have g: "resizeSession ?g = Some (sessionOf e edge y0)" "appointments ?g = appointments s"
    "calls ?g = calls s" "resizeDraftRef ?g = Some ?d"
    using inv by simp_all
  note res = stopResizing_result [OF assms g(1) g(4) releasedDraft_id]
  have a: "rs_id (sessionOf e edge y0) = id' e"
    "rs_startMinutes (sessionOf e edge y0) = minutesOfDay (startDate e)"
    "rs_endMinutes (sessionOf e edge y0) = minutesOfDay (endDate e)"
    by (simp_all add: sessionOf_def)
  have c: "calls (stopResizing p True ?g) =
        (if minutesOfDay (rd_startDate ?d) \<noteq> minutesOfDay (startDate e)
            \<or> minutesOfDay (rd_endDate ?d) \<noteq> minutesOfDay (endDate e)
         then calls s @ [TasksChange (map (resizedEntry p (id' e) (rd_startDate ?d) (rd_endDate ?d))
                                        (appointments s))]
         else calls s)"
    using res(2) by (simp only: a g(2) g(3))
  have ap: "appointments (stopResizing p True ?g) =
        (if minutesOfDay (rd_startDate ?d) \<noteq> minutesOfDay (startDate e)
            \<or> minutesOfDay (rd_endDate ?d) \<noteq> minutesOfDay (endDate e)
         then map (resizedEntry p (id' e) (rd_startDate ?d) (rd_endDate ?d)) (appointments s)
         else appointments s)"
    using res(1) by (simp only: a g(2))
  have n: "calls (stopResizing p True ?g) = calls s
         \<and> appointments (stopResizing p True ?g) = appointments s"
    if "lastRenderedMove evs = None"
  proof -
    have "?d = \<lparr> rd_id = id' e, rd_startDate = startDate e, rd_endDate = endDate e \<rparr>"
      using that by (simp add: releasedDraft_def)
    then show ?thesis using c ap by simp
  qed
  from g(4) c ap n show ?thesis by blast
qed

text \<open>
  The design review, its bottom edge grabbed at 625: a move of half a slot is rendered, a
  move of two and a half slots is not. The release commits the end 11:45 of the first
  move; had the second move been rendered too, it would commit 12:15. With no move
  rendered it commits nothing.
\<close>

theorem resize_release_commits_iff_draft_differs_witness:
  "canResize appProps
   \<and> calls (stopResizing appProps True
        (resizeEvents appProps designReview EdgeBottom 625
           [Render, PointerMove 640, Render, PointerMove 700] (idleState initialAppointments)))
       = [TasksChange (map (resizedEntry appProps 1 (feb2026 9 9 30) (feb2026 9 11 45))
                         initialAppointments)]
   \<and> calls (stopResizing appProps True
        (resizeEvents appProps designReview EdgeBottom 625
           [Render, PointerMove 640, Render, PointerMove 700, Render]
           (idleState initialAppointments)))
       = [TasksChange (map (resizedEntry appProps 1 (feb2026 9 9 30) (feb2026 9 12 15))
                         initialAppointments)]
   \<and> calls (stopResizing appProps True
        (resizeEvents appProps designReview EdgeBottom 625
           [Render, PointerMove 700] (idleState initialAppointments))) = []"
proof -
  let ?s = "idleState initialAppointments"
  let ?a = "\<lparr> rs_id = 1, rs_edge = EdgeBottom, rs_day = feb2026 9 0 0,
              rs_pointerStartY = 625, rs_startMinutes = 570, rs_endMinutes = 690 \<rparr>"
  have s: "calls ?s = []" "appointments ?s = initialAppointments"
    by (simp_all add: idleState_def)
  have a: "sessionOf designReview EdgeBottom 625 = ?a"
    by (simp add: sessionOf_def designReview_fields startOfDay_feb2026 minutesOfDay_feb2026)
  have t: "resizeTarget appProps ?a 640 = (570, 705)" "resizeTarget appProps ?a 700 = (570, 735)"
    by (simp_all add: resizeTarget_def app15 SLOT_HEIGHT_def Math_round_def clamp_def Let_def
        floor_rat_numeral)
  have d: "draftAt appProps ?a 640
      = \<lparr> rd_id = 1, rd_startDate = feb2026 9 9 30, rd_endDate = feb2026 9 11 45 \<rparr>"
    "draftAt appProps ?a 700
      = \<lparr> rd_id = 1, rd_startDate = feb2026 9 9 30, rd_endDate = feb2026 9 12 15 \<rparr>"
    by (simp_all add: draftAt_def t dayWithMinutes_feb2026) (simp_all add: feb2026_def ms_defs)
  have l: "lastRenderedMove [Render, PointerMove 640, Render, PointerMove 700] = Some 640"
    "lastRenderedMove [Render, PointerMove 640, Render, PointerMove 700, Render] = Some 700"
    "lastRenderedMove [Render, PointerMove 700] = None"
    by (simp_all add: lastRenderedMove_def)
  have r: "releasedDraft appProps designReview EdgeBottom 625
         [Render, PointerMove 640, Render, PointerMove 700]
      = \<lparr> rd_id = 1, rd_startDate = feb2026 9 9 30, rd_endDate = feb2026 9 11 45 \<rparr>"
    "releasedDraft appProps designReview EdgeBottom 625
         [Render, PointerMove 640, Render, PointerMove 700, Render]
      = \<lparr> rd_id = 1, rd_startDate = feb2026 9 9 30, rd_endDate = feb2026 9 12 15 \<rparr>"
    by (simp_all only: releasedDraft_def l option.case a d)
  note th1 = resize_release_commits_iff_draft_differs [OF app_flags(2),
      of designReview EdgeBottom 625 "[Render, PointerMove 640, Render, PointerMove 700]" ?s]
  note th2 = resize_release_commits_iff_draft_differs [OF app_flags(2),
      of designReview EdgeBottom 625 "[Render, PointerMove 640, Render, PointerMove 700, Render]" ?s]
  note th3 = resize_release_commits_iff_draft_differs [OF app_flags(2),
      of designReview EdgeBottom 625 "[Render, PointerMove 700]" ?s]
  have c1: "calls (stopResizing appProps True
        (resizeEvents appProps designReview EdgeBottom 625
           [Render, PointerMove 640, Render, PointerMove 700] ?s))
       = [TasksChange (map (resizedEntry appProps 1 (feb2026 9 9 30) (feb2026 9 11 45))
                         initialAppointments)]"
    using th1 [THEN conjunct2, THEN conjunct1]
    by (simp add: r(1) s designReview_fields minutesOfDay_feb2026)
  have c2: "calls (stopResizing appProps True
        (resizeEvents appProps designReview EdgeBottom 625
           [Render, PointerMove 640, Render, PointerMove 700, Render] ?s))
       = [TasksChange (map (resizedEntry appProps 1 (feb2026 9 9 30) (feb2026 9 12 15))
                         initialAppointments)]"
    using th2 [THEN conjunct2, THEN conjunct1]
    by (simp add: r(2) s designReview_fields minutesOfDay_feb2026)
  have c3: "calls (stopResizing appProps True
        (resizeEvents appProps designReview EdgeBottom 625 [Render, PointerMove 700] ?s)) = []"
    using th3 [THEN conjunct2, THEN conjunct2, THEN conjunct2] l(3) by (simp add: s)
  from c1 c2 c3 app_flags(2) show ?thesis by blast
qed

subsection \<open>Releasing at the slot of the pointer-down\<close>

lemma minutesOfDay_range: "0 \<le> minutesOfDay t" "minutesOfDay t < 1440"
  by (simp_all add: minutesOfDay_eq)

lemma minutesOfDay_dayWithMinutes:
  assumes "0 \<le> m" "m < 1440"
  shows "minutesOfDay (dayWithMinutes d m) = m"
proof -
  have "dayWithMinutes d m = (m + (d div 86400000) * 1440) * 60000"
    by (simp add: dayWithMinutes_eq algebra_simps)
  then have "dayWithMinutes d m div 60000 = m + (d div 86400000) * 1440"
    by simp
  moreover have "(m + (d div 86400000) * 1440) mod 1440 = m mod 1440"
    by (rule mod_mult_self1)
  moreover have "m mod 1440 = m" using assms by (rule mod_pos_pos_trivial)
  ultimately show ?thesis by (simp only: minutesOfDay_eq)
qed

lemma renderedMove_moves:
  assumes "\<forall>y. dn = Some y \<longrightarrow> y \<in> S" "\<forall>y. wt = Some y \<longrightarrow> y \<in> S"
    and "\<forall>y. PointerMove y \<in> set evs \<longrightarrow> y \<in> S"
  shows "\<forall>y. fst (foldl renderedMove (dn, wt) evs) = Some y \<longrightarrow> y \<in> S"
  using assms
proof (induction evs arbitrary: dn wt)
  case Nil
  then show ?case by simp
next
  case (Cons ev evs)
  have rest: "\<forall>y. PointerMove y \<in> set evs \<longrightarrow> y \<in> S"
    using Cons.prems(3) by simp
  show ?case
  proof (cases ev)
    case (PointerMove z)
    have z: "\<forall>y. Some z = Some y \<longrightarrow> y \<in> S"
      using Cons.prems(3) PointerMove by simp
    show ?thesis
      using Cons.IH [OF Cons.prems(1) z rest] by (simp add: PointerMove)
  next
    case Render
    show ?thesis
    proof (cases wt)
      case None
      have n: "\<forall>y. (None::rat option) = Some y \<longrightarrow> y \<in> S" by simp
      show ?thesis
        using Cons.IH [OF Cons.prems(1) n rest] by (simp add: Render None)
    next
      case (Some z)
      have z: "\<forall>y. Some z = Some y \<longrightarrow> y \<in> S"
        using Cons.prems(2) Some by simp
      have n: "\<forall>y. (None::rat option) = Some y \<longrightarrow> y \<in> S" by simp
      show ?thesis
        using Cons.IH [OF z n rest] by (simp add: Render Some)
    qed
  qed
qed

lemma lastRenderedMove_moved:
  assumes "lastRenderedMove evs = Some y"
  shows "PointerMove y \<in> set evs"
proof -
  have "\<forall>y. fst (foldl renderedMove (None, None) evs) = Some y
      \<longrightarrow> y \<in> {y. PointerMove y \<in> set evs}"
    by (rule renderedMove_moves) simp_all
  then show ?thesis
    using assms unfolding lastRenderedMove_def by blast
qed

text \<open>
  The no-op guard for baselines inside the window: when every pointer move of a resize
  stays within the slot of the pointer-down, and the start minute of the entry is at least
  one block before its end minute (for the top edge, not before the window start; for the
  bottom edge, the end minute not after the window end), the release calls nothing and
  changes no appointment, whatever was rendered.
\<close>

theorem resize_release_at_start_slot_is_noop:
  assumes "canResize p"
    and "\<forall>y. PointerMove y \<in> set evs \<longrightarrow> Math_round ((y - y0) / SLOT_HEIGHT) = 0"
    and "minutesOfDay (startDate e) + SLOT_MINUTES p \<le> minutesOfDay (endDate e)"
    and "edge = EdgeTop \<longrightarrow> DAY_START_MINUTES p \<le> minutesOfDay (startDate e)"
    and "edge = EdgeBottom \<longrightarrow> minutesOfDay (endDate e) \<le> DAY_END_MINUTES p"
  shows "calls (stopResizing p True (resizeEvents p e edge y0 evs s)) = calls s
    \<and> appointments (stopResizing p True (resizeEvents p e edge y0 evs s)) = appointments s"
proof -
  let ?g = "resizeEvents p e edge y0 evs s"
  let ?d = "releasedDraft p e edge y0 evs"
  let ?a = "sessionOf e edge y0"
  note inv = resizeEvents_state [OF assms(1), of e edge y0 evs s]
  have g: "resizeSession ?g = Some ?a" "appointments ?g = appointments s"
    "calls ?g = calls s" "resizeDraftRef ?g = Some ?d"
    using inv by simp_all
  note res = stopResizing_result [OF assms(1) g(1) g(4) releasedDraft_id]
  have same: "minutesOfDay (rd_startDate ?d) = rs_startMinutes ?a
      \<and> minutesOfDay (rd_endDate ?d) = rs_endMinutes ?a"
  proof (cases "lastRenderedMove evs")
    case None
    then show ?thesis by (simp add: releasedDraft_def sessionOf_def)
  next
    case (Some y)
    then have "Math_round ((y - y0) / SLOT_HEIGHT) = 0"
      using assms(2) lastRenderedMove_moved by blast
    then have t: "resizeTarget p ?a y = (minutesOfDay (startDate e), minutesOfDay (endDate e))"
      using assms(3,4,5)
      by (cases edge) (simp_all add: resizeTarget_def sessionOf_def clamp_def Let_def)
    have "?d = draftAt p ?a y" using Some by (simp add: releasedDraft_def)
    then have d: "rd_startDate ?d = dayWithMinutes (rs_day ?a) (minutesOfDay (startDate e))"
      "rd_endDate ?d = dayWithMinutes (rs_day ?a) (minutesOfDay (endDate e))"
      by (simp_all add: draftAt_def t)
    have a: "rs_startMinutes ?a = minutesOfDay (startDate e)"
      "rs_endMinutes ?a = minutesOfDay (endDate e)"
      by (simp_all add: sessionOf_def)
    show ?thesis
      unfolding d a by (simp add: minutesOfDay_dayWithMinutes minutesOfDay_range)
  qed
  show ?thesis
    using res same by (simp add: g(2) g(3))
qed

theorem resize_release_at_start_slot_is_noop_witness:
  "canResize appProps
   \<and> map (\<lambda>y. Math_round ((y - 625) / SLOT_HEIGHT)) [630, 620] = [0, 0]
   \<and> minutesOfDay (startDate designReview) + SLOT_MINUTES appProps
       \<le> minutesOfDay (endDate designReview)
   \<and> minutesOfDay (endDate designReview) \<le> DAY_END_MINUTES appProps
   \<and> calls (stopResizing appProps True
        (resizeEvents appProps designReview EdgeBottom 625
           [Render, PointerMove 630, Render, PointerMove 620, Render]
           (idleState initialAppointments))) = []"
proof -
  let ?evs = "[Render, PointerMove 630, Render, PointerMove 620, Render]"
  have "\<lfloor>(2::rat) / 3\<rfloor> = 0" "\<lfloor>(1::rat) / 3\<rfloor> = 0"
    by linarith+
  then have r: "Math_round ((630 - 625) / SLOT_HEIGHT) = 0"
    "Math_round ((620 - 625) / SLOT_HEIGHT) = 0"
    by (simp_all add: SLOT_HEIGHT_def Math_round_def)
  have m: "\<forall>y. PointerMove y \<in> set ?evs \<longrightarrow> Math_round ((y - 625) / SLOT_HEIGHT) = 0"
    using r by auto
  have b: "minutesOfDay (startDate designReview) + SLOT_MINUTES appProps
       \<le> minutesOfDay (endDate designReview)"
    "minutesOfDay (endDate designReview) \<le> DAY_END_MINUTES appProps"
    by (simp_all add: designReview_fields minutesOfDay_feb2026 app15)
  have s: "calls (idleState initialAppointments) = []"
    by (simp add: idleState_def)
  from resize_release_at_start_slot_is_noop [OF app_flags(2) m b(1) _ _,
      of EdgeBottom "idleState initialAppointments"]
  show ?thesis
    using r b app_flags(2) by (simp add: s)
qed

section \<open>Creating an entry\<close>

lemma Math_round_of_int: "Math_round (of_int n) = n"
  unfolding Math_round_def by linarith

lemma Math_ceil_of_int: "Math_ceil (of_int n) = n"
  unfolding Math_ceil_def by simp

lemma of_int_mult_div: "b \<noteq> 0 \<Longrightarrow> (of_int (k * b) / of_int b :: rat) = of_int k"
  by simp

lemma slot_fields:
  "SLOT_MINUTES p = blockOf (config p)"
  "SLOT_COUNT p = max 1 (1440 div blockOf (config p))"
  "START_MINUTES p = 0"
  "DEFAULT_TASK_MINUTES p = max 30 (blockOf (config p))"
  "DAY_START_MINUTES p = 0"
  "DAY_END_MINUTES p = max 1 (1440 div blockOf (config p)) * blockOf (config p)"
  by (simp_all add: SLOT_MINUTES_def SLOT_COUNT_def START_MINUTES_def DEFAULT_TASK_MINUTES_def
      DAY_START_MINUTES_def DAY_END_MINUTES_def timeline_fields)

lemma SLOT_COUNT_pos: "1 \<le> SLOT_COUNT p"
  by (simp add: slot_fields)

lemma clamp_range: "lo \<le> hi \<Longrightarrow> lo \<le> clamp v lo hi \<and> clamp v lo hi \<le> hi"
  by (auto simp add: clamp_def)

lemma slotFromDayPointer_range:
  "0 \<le> slotFromDayPointer y rect (SLOT_COUNT p - 1)
   \<and> slotFromDayPointer y rect (SLOT_COUNT p - 1) < SLOT_COUNT p"
  using clamp_range [of 0 "SLOT_COUNT p - 1"] SLOT_COUNT_pos [of p]
  by (simp add: slotFromDayPointer_def Let_def)

lemma startCreateSelection_creating:
  assumes "canCreate p" "\<not> truthy (draggingId s)" "resizeSession s = None"
    "currentView s \<noteq> ViewMonth"
  shows "creating p day s (startCreateSelection p day 0 False y rect s)"
  using assms slotFromDayPointer_range [of y rect p]
  by (simp add: creating_def startCreateSelection_def Let_def)

lemma createOnMove_creating:
  assumes "creating p day s s'"
  shows "creating p day s (createOnMove p y s')"
proof -
  obtain d where d: "createDraft s' = Some d" "cd_dayDate d = startOfDay day"
      "0 \<le> cd_startSlot d" "cd_startSlot d < SLOT_COUNT p"
      "0 \<le> cd_endSlot d" "cd_endSlot d < SLOT_COUNT p"
    and fr: "calls s' = calls s" "appointments s' = appointments s"
      "projectFilter s' = projectFilter s" "taskTypeFilter s' = taskTypeFilter s"
    using assms by (auto simp add: creating_def)
  have r: "\<And>v. 0 \<le> clamp v 0 (SLOT_COUNT p - 1) \<and> clamp v 0 (SLOT_COUNT p - 1) < SLOT_COUNT p"
    using clamp_range [of 0 "SLOT_COUNT p - 1"] SLOT_COUNT_pos [of p] by (smt (verit))
  show ?thesis
    using d fr r
    by (auto simp add: creating_def createOnMove_def Let_def split: option.splits)
qed

lemma createGesture_creating:
  assumes "canCreate p" "\<not> truthy (draggingId s)" "resizeSession s = None"
    "currentView s \<noteq> ViewMonth"
  shows "creating p day s (createGesture p day y0 rect ys s)"
proof -
  have "creating p day s s' \<Longrightarrow> creating p day s (foldl (\<lambda>st y. createOnMove p y st) s' ys)" for s'
    by (induction ys arbitrary: s') (simp_all add: createOnMove_creating)
  then show ?thesis
    using startCreateSelection_creating [OF assms] by (simp add: createGesture_def)
qed

lemma newTask_frame:
  "newTaskProject p (s\<lparr>createListeners := l, createDraft := c\<rparr>) = newTaskProject p s"
  "newTaskType p (s\<lparr>createListeners := l, createDraft := c\<rparr>) = newTaskType p s"
  by (simp_all add: newTaskProject_def newTaskType_def)

lemma newTask_cong:
  "projectFilter s' = projectFilter s \<Longrightarrow> newTaskProject p s' = newTaskProject p s"
  "taskTypeFilter s' = taskTypeFilter s \<Longrightarrow> newTaskType p s' = newTaskType p s"
  by (simp_all add: newTaskProject_def newTaskType_def)

lemma addTaskAtSlot_calls:
  assumes "canCreate p"
    and "max (SLOT_MINUTES p) (Math_round (of_int dur / of_int (SLOT_MINUTES p)) * SLOT_MINUTES p) = sd"
    and "max 1 (Math_ceil (of_int sd / of_int (SLOT_MINUTES p))) = n"
    and "clamp slot 0 (max 0 (SLOT_COUNT p - n)) = k"
  shows "calls (addTaskAtSlot p day slot dur s) =
     calls s @ [TaskCreate
       \<lparr> draft_text = ''New task'',
         draft_startDate = dayWithMinutes day (k * SLOT_MINUTES p),
         draft_endDate = dayWithMinutes day (k * SLOT_MINUTES p) + sd * 60000,
         draft_projectId = newTaskProject p s, draft_taskType = newTaskType p s,
         draft_description = [], draft_timeSpent = of_int sd / 60,
         draft_completed = Some False \<rparr>
       \<lparr> ctx_day = startOfDay day, ctx_slot = k, ctx_durationMinutes = sd \<rparr>]"
  unfolding addTaskAtSlot_def Let_def assms(2) assms(3) assms(4)
  using assms(1) by (simp add: slot_fields(3))

lemma stopCreateSelection_commit:
  assumes "canCreate p" "createDraft s = Some d"
  shows "stopCreateSelection p True s =
     addTaskAtSlot p (cd_dayDate d) (min (cd_startSlot d) (cd_endSlot d))
       (if max 1 (max (cd_startSlot d) (cd_endSlot d) - min (cd_startSlot d) (cd_endSlot d) + 1) = 1
        then DEFAULT_TASK_MINUTES p
        else max 1 (max (cd_startSlot d) (cd_endSlot d) - min (cd_startSlot d) (cd_endSlot d) + 1)
               * SLOT_MINUTES p)
       (s\<lparr>createListeners := False, createDraft := None\<rparr>)"
  using assms by (simp add: stopCreateSelection_def Let_def)

lemma stopCreateSelection_drag:
  assumes "canCreate p" "0 < SLOT_MINUTES p" "createDraft s = Some d"
    "cd_startSlot d \<noteq> cd_endSlot d"
    "0 \<le> cd_startSlot d" "cd_startSlot d < SLOT_COUNT p"
    "0 \<le> cd_endSlot d" "cd_endSlot d < SLOT_COUNT p"
  shows "(let lo = min (cd_startSlot d) (cd_endSlot d);
              span = max (cd_startSlot d) (cd_endSlot d) - lo + 1;
              b = SLOT_MINUTES p;
              start = dayWithMinutes (cd_dayDate d) (lo * b)
          in calls (stopCreateSelection p True s) =
               calls s @ [TaskCreate
                 \<lparr> draft_text = ''New task'', draft_startDate = start,
                   draft_endDate = start + span * b * 60000,
                   draft_projectId = newTaskProject p s, draft_taskType = newTaskType p s,
                   draft_description = [], draft_timeSpent = of_int (span * b) / 60,
                   draft_completed = Some False \<rparr>
                 \<lparr> ctx_day = startOfDay (cd_dayDate d), ctx_slot = lo,
                   ctx_durationMinutes = span * b \<rparr>]
             \<and> lo + span \<le> SLOT_COUNT p)"
proof -
  define lo where "lo = min (cd_startSlot d) (cd_endSlot d)"
  define span where "span = max (cd_startSlot d) (cd_endSlot d) - lo + 1"
  define b where "b = SLOT_MINUTES p"
  let ?s1 = "s\<lparr>createListeners := False, createDraft := None\<rparr>"
  have span2: "2 \<le> span" using assms(4) by (auto simp add: span_def lo_def)
  have b0: "0 < b" "b \<noteq> 0" using assms(2) by (simp_all add: b_def)
  have lo: "0 \<le> lo" "lo + span \<le> SLOT_COUNT p"
    using assms(5-8) by (auto simp add: lo_def span_def)
  have dur: "(if max 1 span = 1 then DEFAULT_TASK_MINUTES p else max 1 span * b) = span * b"
    using span2 by simp
  have bsp: "b \<le> span * b" using span2 b0 by (simp add: mult_le_cancel_right1)
  have q: "(of_int (span * b) / of_int b :: rat) = of_int span"
    by (rule of_int_mult_div [OF b0(2)])
  have snapped: "max b (Math_round (of_int (span * b) / of_int b) * b) = span * b"
    unfolding q Math_round_of_int using bsp by simp
  have slots: "max 1 (Math_ceil (of_int (span * b) / of_int b)) = span"
    unfolding q Math_ceil_of_int using span2 by simp
  have safe: "clamp lo 0 (max 0 (SLOT_COUNT p - span)) = lo"
    using lo by (simp add: clamp_def)
  have "stopCreateSelection p True s = addTaskAtSlot p (cd_dayDate d) lo (span * b) ?s1"
    unfolding stopCreateSelection_commit [OF assms(1,3)] lo_def [symmetric]
      span_def [symmetric] b_def [symmetric] dur ..
  then have "calls (stopCreateSelection p True s) =
               calls ?s1 @ [TaskCreate
                 \<lparr> draft_text = ''New task'',
                   draft_startDate = dayWithMinutes (cd_dayDate d) (lo * b),
                   draft_endDate = dayWithMinutes (cd_dayDate d) (lo * b) + span * b * 60000,
                   draft_projectId = newTaskProject p ?s1, draft_taskType = newTaskType p ?s1,
                   draft_description = [], draft_timeSpent = of_int (span * b) / 60,
                   draft_completed = Some False \<rparr>
                 \<lparr> ctx_day = startOfDay (cd_dayDate d), ctx_slot = lo,
                   ctx_durationMinutes = span * b \<rparr>]"
    using addTaskAtSlot_calls [OF assms(1), of "span * b" "span * b" span lo lo "cd_dayDate d" ?s1]
      snapped slots safe
    unfolding b_def by simp
  then have "calls (stopCreateSelection p True s) =
               calls s @ [TaskCreate
                 \<lparr> draft_text = ''New task'',
                   draft_startDate = dayWithMinutes (cd_dayDate d) (lo * b),
                   draft_endDate = dayWithMinutes (cd_dayDate d) (lo * b) + span * b * 60000,
                   draft_projectId = newTaskProject p s, draft_taskType = newTaskType p s,
                   draft_description = [], draft_timeSpent = of_int (span * b) / 60,
                   draft_completed = Some False \<rparr>
                 \<lparr> ctx_day = startOfDay (cd_dayDate d), ctx_slot = lo,
                   ctx_durationMinutes = span * b \<rparr>]"
    by (simp add: newTask_frame)
  then show ?thesis
    using lo(2) unfolding Let_def lo_def [symmetric] span_def [symmetric] b_def [symmetric]
    by blast
qed


lemma default_task_rounding:
  assumes "b \<in> {15, 30, 60}"
  shows "max b (Math_round (of_int (max 30 b) / of_int b) * b) = max 30 b"
    and "max 1 (Math_ceil (of_int (max 30 b) / of_int b)) = max 30 b div b"
    and "max 1 (1440 div b) = 1440 div b"
proof -
  have pos: "0 < b" using assms by auto
  have 1: "Math_round (of_int (max 30 b) / of_int b) = (2 * max 30 b + b) div (2 * b)"
    by (rule round_div_int [OF pos])
  have 2: "Math_ceil (of_int (max 30 b) / of_int b) = - (- max 30 b div b)"
    by (rule ceil_div_int)
  show "max b (Math_round (of_int (max 30 b) / of_int b) * b) = max 30 b"
    unfolding 1 using assms by (elim insertE emptyE; simp)
  show "max 1 (Math_ceil (of_int (max 30 b) / of_int b)) = max 30 b div b"
    unfolding 2 using assms by (elim insertE emptyE; simp)
  show "max 1 (1440 div b) = 1440 div b"
    using assms by (elim insertE emptyE; simp)
qed

lemma stopCreateSelection_click:
  assumes "canCreate p" "SLOT_MINUTES p \<in> {15, 30, 60}" "createDraft s = Some d"
    "cd_startSlot d = cd_endSlot d" "0 \<le> cd_startSlot d" "cd_startSlot d < SLOT_COUNT p"
  shows "(let b = SLOT_MINUTES p;
              dur = max 30 b;
              k = min (cd_startSlot d) (SLOT_COUNT p - dur div b);
              start = dayWithMinutes (cd_dayDate d) (k * b)
          in calls (stopCreateSelection p True s) =
               calls s @ [TaskCreate
                 \<lparr> draft_text = ''New task'', draft_startDate = start,
                   draft_endDate = start + dur * 60000,
                   draft_projectId = newTaskProject p s, draft_taskType = newTaskType p s,
                   draft_description = [], draft_timeSpent = of_int dur / 60,
                   draft_completed = Some False \<rparr>
                 \<lparr> ctx_day = startOfDay (cd_dayDate d), ctx_slot = k,
                   ctx_durationMinutes = dur \<rparr>])"
proof -
  define b where "b = SLOT_MINUTES p"
  define dur where "dur = max 30 b"
  define k where "k = min (cd_startSlot d) (SLOT_COUNT p - dur div b)"
  let ?s1 = "s\<lparr>createListeners := False, createDraft := None\<rparr>"
  have bb: "b \<in> {15, 30, 60}" using assms(2) by (simp add: b_def)
  have def: "DEFAULT_TASK_MINUTES p = dur"
    by (simp add: dur_def b_def slot_fields)
  have cnt: "SLOT_COUNT p = 1440 div b"
    using default_task_rounding(3) [OF bb] by (simp add: b_def slot_fields)
  have one: "max 1 (max (cd_startSlot d) (cd_endSlot d) - min (cd_startSlot d) (cd_endSlot d) + 1) = 1"
    using assms(4) by simp
  have lo: "min (cd_startSlot d) (cd_endSlot d) = cd_startSlot d"
    using assms(4) by simp
  have st: "stopCreateSelection p True s = addTaskAtSlot p (cd_dayDate d) (cd_startSlot d) dur ?s1"
    unfolding stopCreateSelection_commit [OF assms(1,3)] def [symmetric]
    using assms(4) by simp
  have snapped: "max (SLOT_MINUTES p)
      (Math_round (of_int dur / of_int (SLOT_MINUTES p)) * SLOT_MINUTES p) = dur"
    using default_task_rounding(1) [OF bb] by (simp add: dur_def b_def)
  have slots: "max 1 (Math_ceil (of_int dur / of_int (SLOT_MINUTES p))) = dur div b"
    using default_task_rounding(2) [OF bb] by (simp add: dur_def b_def)
  have "0 \<le> SLOT_COUNT p - dur div b"
    using bb by (auto simp add: cnt dur_def)
  then have safe: "clamp (cd_startSlot d) 0 (max 0 (SLOT_COUNT p - dur div b)) = k"
    using assms(5) by (simp add: clamp_def k_def min.commute)
  have "calls (stopCreateSelection p True s) =
               calls s @ [TaskCreate
                 \<lparr> draft_text = ''New task'',
                   draft_startDate = dayWithMinutes (cd_dayDate d) (k * b),
                   draft_endDate = dayWithMinutes (cd_dayDate d) (k * b) + dur * 60000,
                   draft_projectId = newTaskProject p s, draft_taskType = newTaskType p s,
                   draft_description = [], draft_timeSpent = of_int dur / 60,
                   draft_completed = Some False \<rparr>
                 \<lparr> ctx_day = startOfDay (cd_dayDate d), ctx_slot = k,
                   ctx_durationMinutes = dur \<rparr>]"
    unfolding st addTaskAtSlot_calls [OF assms(1) snapped slots safe] b_def
    by (simp add: newTask_frame)
  then show ?thesis
    unfolding Let_def b_def [symmetric] dur_def [symmetric] k_def [symmetric] .
qed

lemma dayWithMinutes_startOfDay: "dayWithMinutes (startOfDay day) m = dayWithMinutes day m"
  by (simp add: dayWithMinutes_eq startOfDay_eq)

lemma startOfDay_idem: "startOfDay (startOfDay day) = startOfDay day"
  by (simp add: startOfDay_eq)

text \<open>
  C5 (amended): a create gesture on an idle grid view (creating enabled, block of 15, 30 or
  60 minutes) holds a draft whose slots lie in the day; released with the end slot equal to
  the anchor slot it requests one entry of \<open>max 30 blockSize\<close> minutes that starts at the
  clicked slot, or at the last slot that leaves room for that duration when the click is
  later.
\<close>

theorem create_click_default:
  assumes "canCreate p" "\<not> truthy (draggingId s)" "resizeSession s = None"
    "currentView s \<noteq> ViewMonth" "SLOT_MINUTES p \<in> {15, 30, 60}"
  shows "\<exists>d. createDraft (createGesture p day y rect ys s) = Some d
     \<and> 0 \<le> cd_startSlot d \<and> cd_startSlot d < SLOT_COUNT p
     \<and> (cd_startSlot d = cd_endSlot d \<longrightarrow>
          (let b = SLOT_MINUTES p;
               dur = max 30 b;
               k = min (cd_startSlot d) (SLOT_COUNT p - dur div b);
               start = dayWithMinutes day (k * b)
           in calls (stopCreateSelection p True (createGesture p day y rect ys s)) =
                calls s @ [TaskCreate
                  \<lparr> draft_text = ''New task'', draft_startDate = start,
                    draft_endDate = start + dur * 60000,
                    draft_projectId = newTaskProject p s, draft_taskType = newTaskType p s,
                    draft_description = [], draft_timeSpent = of_int dur / 60,
                    draft_completed = Some False \<rparr>
                  \<lparr> ctx_day = startOfDay day, ctx_slot = k, ctx_durationMinutes = dur \<rparr>]))"
proof -
  let ?g = "createGesture p day y rect ys s"
  have c: "creating p day s ?g"
    by (rule createGesture_creating [OF assms(1-4)])
  then obtain d where d: "createDraft ?g = Some d" "cd_dayDate d = startOfDay day"
      "0 \<le> cd_startSlot d" "cd_startSlot d < SLOT_COUNT p"
    by (auto simp add: creating_def)
  have cf: "calls ?g = calls s" "projectFilter ?g = projectFilter s"
    "taskTypeFilter ?g = taskTypeFilter s"
    using c by (simp_all add: creating_def)
  note fr = cf(1) newTask_cong(1) [OF cf(2), of p] newTask_cong(2) [OF cf(3), of p]
  have "cd_startSlot d = cd_endSlot d \<longrightarrow>
          (let b = SLOT_MINUTES p;
               dur = max 30 b;
               k = min (cd_startSlot d) (SLOT_COUNT p - dur div b);
               start = dayWithMinutes day (k * b)
           in calls (stopCreateSelection p True ?g) =
                calls s @ [TaskCreate
                  \<lparr> draft_text = ''New task'', draft_startDate = start,
                    draft_endDate = start + dur * 60000,
                    draft_projectId = newTaskProject p s, draft_taskType = newTaskType p s,
                    draft_description = [], draft_timeSpent = of_int dur / 60,
                    draft_completed = Some False \<rparr>
                  \<lparr> ctx_day = startOfDay day, ctx_slot = k, ctx_durationMinutes = dur \<rparr>])"
  proof
    assume eq: "cd_startSlot d = cd_endSlot d"
    show "(let b = SLOT_MINUTES p;
               dur = max 30 b;
               k = min (cd_startSlot d) (SLOT_COUNT p - dur div b);
               start = dayWithMinutes day (k * b)
           in calls (stopCreateSelection p True ?g) =
                calls s @ [TaskCreate
                  \<lparr> draft_text = ''New task'', draft_startDate = start,
                    draft_endDate = start + dur * 60000,
                    draft_projectId = newTaskProject p s, draft_taskType = newTaskType p s,
                    draft_description = [], draft_timeSpent = of_int dur / 60,
                    draft_completed = Some False \<rparr>
                  \<lparr> ctx_day = startOfDay day, ctx_slot = k, ctx_durationMinutes = dur \<rparr>])"
      using stopCreateSelection_click [OF assms(1) assms(5) d(1) eq d(3) d(4)]
      unfolding Let_def d(2) fr dayWithMinutes_startOfDay startOfDay_idem .
  qed
  with d show ?thesis by blast
qed

text \<open>
  C6: a create gesture on an idle grid view (creating enabled, positive block) holds a draft
  whose slots lie in the day; released with an end slot different from the anchor slot it
  requests one entry that starts at the earlier slot and lasts
  \<open>(max anchor end - min anchor end + 1) * blockSize\<close> minutes, whatever the direction, and
  that start slot plus the number of slots does not exceed the slot count of the day.
\<close>

theorem create_drag_span:
  assumes "canCreate p" "\<not> truthy (draggingId s)" "resizeSession s = None"
    "currentView s \<noteq> ViewMonth" "0 < SLOT_MINUTES p"
  shows "\<exists>d. createDraft (createGesture p day y rect ys s) = Some d
     \<and> 0 \<le> cd_startSlot d \<and> cd_startSlot d < SLOT_COUNT p
     \<and> 0 \<le> cd_endSlot d \<and> cd_endSlot d < SLOT_COUNT p
     \<and> (cd_startSlot d \<noteq> cd_endSlot d \<longrightarrow>
          (let lo = min (cd_startSlot d) (cd_endSlot d);
               span = max (cd_startSlot d) (cd_endSlot d) - lo + 1;
               b = SLOT_MINUTES p;
               start = dayWithMinutes day (lo * b)
           in calls (stopCreateSelection p True (createGesture p day y rect ys s)) =
                calls s @ [TaskCreate
                  \<lparr> draft_text = ''New task'', draft_startDate = start,
                    draft_endDate = start + span * b * 60000,
                    draft_projectId = newTaskProject p s, draft_taskType = newTaskType p s,
                    draft_description = [], draft_timeSpent = of_int (span * b) / 60,
                    draft_completed = Some False \<rparr>
                  \<lparr> ctx_day = startOfDay day, ctx_slot = lo,
                    ctx_durationMinutes = span * b \<rparr>]
              \<and> lo + span \<le> SLOT_COUNT p))"
proof -
  let ?g = "createGesture p day y rect ys s"
  have c: "creating p day s ?g"
    by (rule createGesture_creating [OF assms(1-4)])
  then obtain d where d: "createDraft ?g = Some d" "cd_dayDate d = startOfDay day"
      "0 \<le> cd_startSlot d" "cd_startSlot d < SLOT_COUNT p"
      "0 \<le> cd_endSlot d" "cd_endSlot d < SLOT_COUNT p"
    by (auto simp add: creating_def)
  have cf: "calls ?g = calls s" "projectFilter ?g = projectFilter s"
    "taskTypeFilter ?g = taskTypeFilter s"
    using c by (simp_all add: creating_def)
  note fr = cf(1) newTask_cong(1) [OF cf(2), of p] newTask_cong(2) [OF cf(3), of p]
  have "cd_startSlot d \<noteq> cd_endSlot d \<longrightarrow>
          (let lo = min (cd_startSlot d) (cd_endSlot d);
               span = max (cd_startSlot d) (cd_endSlot d) - lo + 1;
               b = SLOT_MINUTES p;
               start = dayWithMinutes day (lo * b)
           in calls (stopCreateSelection p True ?g) =
                calls s @ [TaskCreate
                  \<lparr> draft_text = ''New task'', draft_startDate = start,
                    draft_endDate = start + span * b * 60000,
                    draft_projectId = newTaskProject p s, draft_taskType = newTaskType p s,
                    draft_description = [], draft_timeSpent = of_int (span * b) / 60,
                    draft_completed = Some False \<rparr>
                  \<lparr> ctx_day = startOfDay day, ctx_slot = lo,
                    ctx_durationMinutes = span * b \<rparr>]
              \<and> lo + span \<le> SLOT_COUNT p)"
  proof
    assume ne: "cd_startSlot d \<noteq> cd_endSlot d"
    show "(let lo = min (cd_startSlot d) (cd_endSlot d);
               span = max (cd_startSlot d) (cd_endSlot d) - lo + 1;
               b = SLOT_MINUTES p;
               start = dayWithMinutes day (lo * b)
           in calls (stopCreateSelection p True ?g) =
                calls s @ [TaskCreate
                  \<lparr> draft_text = ''New task'', draft_startDate = start,
                    draft_endDate = start + span * b * 60000,
                    draft_projectId = newTaskProject p s, draft_taskType = newTaskType p s,
                    draft_description = [], draft_timeSpent = of_int (span * b) / 60,
                    draft_completed = Some False \<rparr>
                  \<lparr> ctx_day = startOfDay day, ctx_slot = lo,
                    ctx_durationMinutes = span * b \<rparr>]
              \<and> lo + span \<le> SLOT_COUNT p)"
      using stopCreateSelection_drag [OF assms(1) assms(5) d(1) ne d(3) d(4) d(5) d(6)]
      unfolding Let_def d(2) fr dayWithMinutes_startOfDay startOfDay_idem .
  qed
  with d show ?thesis by blast
qed


lemma idle_fields:
  "draggingId (idleState xs) = None" "resizeSession (idleState xs) = None"
  "currentView (idleState xs) = ViewWeek" "calls (idleState xs) = []"
  "appointments (idleState xs) = xs" "projectFilter (idleState xs) = None"
  "taskTypeFilter (idleState xs) = None" "createDraft (idleState xs) = None"
  "gridDayRefs (idleState xs) = map column [9, 10, 11, 12, 13, 14, 15]"
  by (simp_all add: idleState_def)

lemma idle_guards:
  "\<not> truthy (draggingId (idleState xs))" "currentView (idleState xs) \<noteq> ViewMonth"
  by (simp_all add: idle_fields truthy_def)

lemma props60_fields: "canCreate props60" "SLOT_MINUTES props60 = 60" "SLOT_COUNT props60 = 24"
  by (simp_all add: props60_def appProps_def appConfig_def slot_fields blockOf_def)

lemma column9: "snd (column 9) = \<lparr> rect_left = 80, rect_top = 100, rect_width = 120, rect_height = 2880 \<rparr>"
  by (simp add: column_def)

lemma slot_at:
  "slotFromDayPointer 1247 (snd (column 9)) 95 = 38"
  "slotFromDayPointer 405 (snd (column 9)) 95 = 10"
  "slotFromDayPointer 500 (snd (column 9)) 95 = 13"
  "slotFromDayPointer 2975 (snd (column 9)) 95 = 95"
  "slotFromDayPointer 375 (snd (column 9)) 23 = 9"
  by (simp_all add: slotFromDayPointer_def column9 clamp_def SLOT_HEIGHT_def Math_floor_def
      floor_rat_numeral truthy_def Let_def)

lemma click_draft:
  "createDraft (createGesture appProps (feb2026 9 0 0) 1247 (snd (column 9)) [] (idleState xs))
   = Some \<lparr> cd_day = dayKey (feb2026 9 0 0), cd_dayDate = feb2026 9 0 0,
            cd_startSlot = 38, cd_endSlot = 38 \<rparr>"
  using startOfDay_feb2026 [of 0 0 9]
  by (simp add: createGesture_def startCreateSelection_def app_flags idle_fields idle_guards
      app15 slot_at truthy_def Let_def)

lemma drag_draft:
  "createDraft (createGesture appProps (feb2026 9 0 0) 405 (snd (column 9)) [450, 500] (idleState xs))
   = Some \<lparr> cd_day = dayKey (feb2026 9 0 0), cd_dayDate = feb2026 9 0 0,
            cd_startSlot = 10, cd_endSlot = 13 \<rparr>"
  using startOfDay_feb2026 [of 0 0 9]
  by (simp add: createGesture_def startCreateSelection_def createOnMove_def app_flags idle_fields
      idle_guards app15 slot_at [unfolded column9] column_def clamp_def SLOT_HEIGHT_def Math_floor_def
      floor_rat_numeral truthy_def Let_def)


theorem create_click_default_witness:
  "canCreate appProps \<and> SLOT_MINUTES appProps \<in> {15, 30, 60}
   \<and> map createdRange
        (calls (stopCreateSelection appProps True
           (createGesture appProps (feb2026 9 0 0) 1247 (snd (column 9)) [] (idleState []))))
     = [Some (feb2026 9 9 30, feb2026 9 10 0)]"
proof -
  let ?g = "createGesture appProps (feb2026 9 0 0) 1247 (snd (column 9)) [] (idleState [])"
  have b: "SLOT_MINUTES appProps \<in> {15, 30, 60}" by (simp add: app15)
  from create_click_default [OF app_flags(3) idle_guards(1) [of "[]"] idle_fields(2) idle_guards(2) b,
      where day = "feb2026 9 0 0" and y = 1247 and rect = "snd (column 9)" and ys = "[]"]
  have "calls (stopCreateSelection appProps True ?g) =
      [TaskCreate
         \<lparr> draft_text = ''New task'',
           draft_startDate = dayWithMinutes (feb2026 9 0 0) (38 * 15),
           draft_endDate = dayWithMinutes (feb2026 9 0 0) (38 * 15) + 30 * 60000,
           draft_projectId = newTaskProject appProps (idleState []),
           draft_taskType = newTaskType appProps (idleState []),
           draft_description = [], draft_timeSpent = of_int 30 / 60,
           draft_completed = Some False \<rparr>
         \<lparr> ctx_day = startOfDay (feb2026 9 0 0), ctx_slot = 38, ctx_durationMinutes = 30 \<rparr>]"
    by (simp add: click_draft app15 idle_fields Let_def)
  then show ?thesis
    using dayWithMinutes_feb2026 [of 0 0 9 570]
    by (simp add: app_flags app15 feb2026_def ms_defs)
qed

theorem create_drag_span_witness:
  "canCreate appProps \<and> 0 < SLOT_MINUTES appProps
   \<and> map createdRange
        (calls (stopCreateSelection appProps True
           (createGesture appProps (feb2026 9 0 0) 405 (snd (column 9)) [450, 500] (idleState []))))
     = [Some (feb2026 9 2 30, feb2026 9 3 30)]
   \<and> feb2026 9 3 30 - feb2026 9 2 30 = 60 * 60000"
proof -
  let ?g = "createGesture appProps (feb2026 9 0 0) 405 (snd (column 9)) [450, 500] (idleState [])"
  have b: "0 < SLOT_MINUTES appProps" by (simp add: app15)
  from create_drag_span [OF app_flags(3) idle_guards(1) [of "[]"] idle_fields(2) idle_guards(2) b,
      where day = "feb2026 9 0 0" and y = 405 and rect = "snd (column 9)" and ys = "[450, 500]"]
  have "calls (stopCreateSelection appProps True ?g) =
      [TaskCreate
         \<lparr> draft_text = ''New task'',
           draft_startDate = dayWithMinutes (feb2026 9 0 0) (10 * 15),
           draft_endDate = dayWithMinutes (feb2026 9 0 0) (10 * 15) + 4 * 15 * 60000,
           draft_projectId = newTaskProject appProps (idleState []),
           draft_taskType = newTaskType appProps (idleState []),
           draft_description = [], draft_timeSpent = of_int (4 * 15) / 60,
           draft_completed = Some False \<rparr>
         \<lparr> ctx_day = startOfDay (feb2026 9 0 0), ctx_slot = 10, ctx_durationMinutes = 4 * 15 \<rparr>]"
    by (simp add: drag_draft app15 idle_fields Let_def)
  then show ?thesis
    using dayWithMinutes_feb2026 [of 0 0 9 150]
    by (simp add: app_flags app15 feb2026_def ms_defs)
qed

lemma click60_draft:
  "createDraft (createGesture props60 (feb2026 9 0 0) 375 (snd (column 9)) [] (idleState xs))
   = Some \<lparr> cd_day = dayKey (feb2026 9 0 0), cd_dayDate = feb2026 9 0 0,
            cd_startSlot = 9, cd_endSlot = 9 \<rparr>"
  using startOfDay_feb2026 [of 0 0 9]
  by (simp add: createGesture_def startCreateSelection_def props60_fields idle_fields
      slot_at truthy_def Let_def)

text \<open>
  C5, as stated, fails: with sixty-minute blocks a click on the slot of 09:00 requests an
  entry from 09:00 to 10:00, sixty minutes long.
\<close>

theorem create_click_sixty_minute_block:
  "map createdRange
     (calls (stopCreateSelection props60 True
        (createGesture props60 (feb2026 9 0 0) 375 (snd (column 9)) [] (idleState []))))
   = [Some (feb2026 9 9 0, feb2026 9 10 0)]
   \<and> feb2026 9 10 0 - feb2026 9 9 0 = 60 * 60000"
proof -
  let ?g = "createGesture props60 (feb2026 9 0 0) 375 (snd (column 9)) [] (idleState [])"
  have b: "SLOT_MINUTES props60 \<in> {15, 30, 60}" by (simp add: props60_fields)
  have g: "calls ?g = []"
    by (simp add: createGesture_def startCreateSelection_def props60_fields idle_fields
        truthy_def Let_def)
  from stopCreateSelection_click [OF props60_fields(1) b click60_draft [of "[]"]]
  have "calls (stopCreateSelection props60 True ?g) =
      [TaskCreate
         \<lparr> draft_text = ''New task'',
           draft_startDate = dayWithMinutes (feb2026 9 0 0) (9 * 60),
           draft_endDate = dayWithMinutes (feb2026 9 0 0) (9 * 60) + 60 * 60000,
           draft_projectId = newTaskProject props60 ?g,
           draft_taskType = newTaskType props60 ?g,
           draft_description = [], draft_timeSpent = of_int 60 / 60,
           draft_completed = Some False \<rparr>
         \<lparr> ctx_day = startOfDay (feb2026 9 0 0), ctx_slot = 9, ctx_durationMinutes = 60 \<rparr>]"
    by (simp add: props60_fields g Let_def)
  then show ?thesis
    using dayWithMinutes_feb2026 [of 0 0 9 540]
    by (simp add: feb2026_def ms_defs)
qed


section \<open>Timeline normalisation\<close>




























section \<open>Lane packing\<close>

lemma findIndex_None: "findIndex p xs = None \<Longrightarrow> k < length xs \<Longrightarrow> \<not> p (xs ! k)"
proof (induction xs arbitrary: k)
  case Nil
  then show ?case by simp
next
  case (Cons x xs)
  then show ?case by (cases k) (auto split: if_splits)
qed

lemma findIndex_Some: "findIndex p xs = Some k \<Longrightarrow> k < length xs \<and> p (xs ! k)"
proof (induction xs arbitrary: k)
  case Nil
  then show ?case by simp
next
  case (Cons x xs)
  then show ?case by (auto split: if_splits)
qed

lemma entryEnd_gt: "0 < slot \<Longrightarrow> entryStart e < entryEnd slot e"
  using durationMinutes_ge [of slot e] by (simp add: entryEnd_def)

lemma depthAt_snoc: "depthAt slot (P @ [x]) t = depthAt slot P t + (if covers slot x t then 1 else 0)"
  by (simp add: depthAt_def)

lemma covers_overlapping: "covers slot a t \<Longrightarrow> covers slot b t \<Longrightarrow> overlapping slot a b"
  by (auto simp add: covers_def overlapping_def)

lemma packed_empty: "packed slot [] ([], Map.empty)"
  by (simp add: packed_def)

lemma depthAt_ge_lanes:
  assumes "\<forall>k<n. \<exists>e\<in>set P. m (id' e) = Some k \<and> covers slot e t"
  shows "n \<le> depthAt slot P t"
proof -
  let ?A = "{e \<in> set P. covers slot e t}"
  have "{0..<n} \<subseteq> (\<lambda>e. the (m (id' e))) ` ?A"
  proof
    fix k assume "k \<in> {0..<n}"
    then obtain e where "e \<in> set P" "m (id' e) = Some k" "covers slot e t"
      using assms by auto
    then show "k \<in> (\<lambda>e. the (m (id' e))) ` ?A" by force
  qed
  then have "card {0..<n} \<le> card ?A"
    by (intro surj_card_le) simp_all
  then have "n \<le> card ?A" by simp
  also have "?A = set (filter (\<lambda>e. covers slot e t) P)" by auto
  also have "card \<dots> \<le> length (filter (\<lambda>e. covers slot e t) P)" by (rule card_length)
  finally show ?thesis by (simp only: depthAt_def)
qed

lemma depthAt_le_lanes:
  assumes "packed slot P st" "distinct (map id' P)"
  shows "depthAt slot P t \<le> length (fst st)"
proof -
  let ?A = "{e \<in> set P. covers slot e t}"
  let ?f = "\<lambda>e. the (snd st (id' e))"
  have d: "distinct P" "inj_on id' (set P)"
    using assms(2) by (simp_all add: distinct_map)
  have lane: "\<And>e. e \<in> set P \<Longrightarrow> \<exists>k<length (fst st). snd st (id' e) = Some k"
    using assms(1) unfolding packed_def by blast
  have apart: "\<And>a b. a \<in> set P \<Longrightarrow> b \<in> set P \<Longrightarrow> id' a \<noteq> id' b
      \<Longrightarrow> snd st (id' a) = snd st (id' b) \<Longrightarrow> \<not> overlapping slot a b"
    using assms(1) unfolding packed_def by blast
  have "inj_on ?f ?A"
  proof (rule inj_onI)
    fix a b assume a: "a \<in> ?A" and b: "b \<in> ?A" and eq: "?f a = ?f b"
    from a b lane have "snd st (id' a) = snd st (id' b)"
      using eq by (metis (mono_tags, lifting) mem_Collect_eq option.sel)
    moreover have "overlapping slot a b"
      using a b by (auto intro: covers_overlapping)
    ultimately have "id' a = id' b" using apart a b by blast
    then show "a = b" using d(2) a b by (auto dest: inj_onD)
  qed
  moreover have "?f ` ?A \<subseteq> {0..<length (fst st)}"
    using lane by fastforce
  ultimately have c: "card ?A \<le> card {0..<length (fst st)}"
    by (intro card_inj_on_le) simp_all
  have "distinct (filter (\<lambda>e. covers slot e t) P)" using d(1) by simp
  then have "length (filter (\<lambda>e. covers slot e t) P) = card (set (filter (\<lambda>e. covers slot e t) P))"
    by (rule distinct_card [symmetric])
  also have "set (filter (\<lambda>e. covers slot e t) P) = ?A" by auto
  finally show ?thesis using c by (simp only: depthAt_def card_atLeastLessThan diff_zero)
qed

lemma placeEntry_eq:
  "placeEntry slot (ends, m) x =
     (case findIndex (\<lambda>laneEnd. entryStart x \<ge> laneEnd) ends of
        None \<Rightarrow> (ends @ [entryEnd slot x], m(id' x \<mapsto> length ends))
      | Some lane \<Rightarrow> (ends[lane := entryEnd slot x], m(id' x \<mapsto> lane)))"
  by (simp add: placeEntry_def entryStart_def entryEnd_def Let_def split: option.split)

lemma not_overlapping_after: "entryEnd slot b \<le> entryStart a \<Longrightarrow> \<not> overlapping slot a b"
  by (simp add: overlapping_def)

lemma overlapping_sym: "overlapping slot a b = overlapping slot b a"
  by (auto simp add: overlapping_def)

lemma packed_step:
  assumes inv: "packed slot P st" and pos: "0 < slot"
    and new: "id' x \<notin> id' ` set P" and srt: "\<forall>e\<in>set P. entryStart e \<le> entryStart x"
  shows "packed slot (P @ [x]) (placeEntry slot st x)"
proof -
  obtain ends m where st: "st = (ends, m)" by (cases st)
  define s where "s = entryStart x"
  define h where "h = entryEnd slot x"
  have sh: "s < h" unfolding s_def h_def using pos by (rule entryEnd_gt)
  have i1: "\<exists>k<length ends. m (id' e) = Some k \<and> entryEnd slot e \<le> ends ! k" if "e \<in> set P" for e
    using inv that unfolding packed_def st by simp
  have i2: "\<exists>e\<in>set P. m (id' e) = Some k \<and> entryEnd slot e = ends ! k" if "k < length ends" for k
    using inv that unfolding packed_def st by simp
  have i3: "\<not> overlapping slot a b"
    if "a \<in> set P" "b \<in> set P" "id' a \<noteq> id' b" "m (id' a) = m (id' b)" for a b
    using inv that unfolding packed_def st by simp
  have i4: "\<exists>t. length ends \<le> depthAt slot P t" if "ends \<noteq> []"
    using inv that unfolding packed_def st by simp
  have other: "id' e \<noteq> id' x" if "e \<in> set P" for e
    using new that by (metis imageI)
  have before: "entryStart e \<le> s" if "e \<in> set P" for e
    using srt that by (simp add: s_def)
  show ?thesis
  proof (cases "findIndex (\<lambda>laneEnd. s \<ge> laneEnd) ends")
    case None
    have nf: "s < ends ! k" if "k < length ends" for k
      using findIndex_None [OF None that] by simp
    have "packed slot (P @ [x]) (ends @ [h], m(id' x \<mapsto> length ends))"
      unfolding packed_def fst_conv snd_conv
    proof (intro conjI ballI allI impI)
      fix e assume e: "e \<in> set (P @ [x])"
      show "\<exists>k<length (ends @ [h]). (m(id' x \<mapsto> length ends)) (id' e) = Some k
              \<and> entryEnd slot e \<le> (ends @ [h]) ! k"
      proof (cases "e = x")
        case True
        then show ?thesis by (intro exI [of _ "length ends"]) (simp add: h_def)
      next
        case False
        then have p: "e \<in> set P" using e by simp
        then obtain k where k: "k < length ends" "m (id' e) = Some k" "entryEnd slot e \<le> ends ! k"
          using i1 by blast
        then show ?thesis
          using other [OF p] by (intro exI [of _ k]) (simp add: nth_append)
      qed
    next
      fix k assume k: "k < length (ends @ [h])"
      show "\<exists>e\<in>set (P @ [x]). (m(id' x \<mapsto> length ends)) (id' e) = Some k
              \<and> entryEnd slot e = (ends @ [h]) ! k"
      proof (cases "k < length ends")
        case True
        then obtain e where e: "e \<in> set P" "m (id' e) = Some k" "entryEnd slot e = ends ! k"
          using i2 by blast
        then show ?thesis
          using other [OF e(1)] True by (intro bexI [of _ e]) (simp_all add: nth_append)
      next
        case False
        then have "k = length ends" using k by simp
        then show ?thesis by (intro bexI [of _ x]) (simp_all add: h_def)
      qed
    next
      fix a b
      assume a: "a \<in> set (P @ [x])" and b: "b \<in> set (P @ [x])"
        and ab: "id' a \<noteq> id' b
          \<and> (m(id' x \<mapsto> length ends)) (id' a) = (m(id' x \<mapsto> length ends)) (id' b)"
      have old: "(m(id' x \<mapsto> length ends)) (id' e) = m (id' e) \<and> m (id' e) \<noteq> Some (length ends)"
        if "e \<in> set P" for e
        using i1 [OF that] other [OF that] by auto
      show "\<not> overlapping slot a b"
      proof (cases "a = x")
        case ax: True
        show ?thesis
        proof (cases "b = x")
          case True
          then show ?thesis using ax ab by simp
        next
          case False
          then have "b \<in> set P" using b by simp
          then show ?thesis using old [of b] ab ax by simp
        qed
      next
        case ax: False
        then have pa: "a \<in> set P" using a by simp
        show ?thesis
        proof (cases "b = x")
          case True
          then show ?thesis using old [OF pa] ab by simp
        next
          case False
          then have pb: "b \<in> set P" using b by simp
          show ?thesis
            using i3 [OF pa pb] old [OF pa] old [OF pb] ab by simp
        qed
      qed
    next
      have "\<forall>k<length ends. \<exists>e\<in>set P. m (id' e) = Some k \<and> covers slot e s"
      proof (intro allI impI)
        fix k assume k: "k < length ends"
        then obtain e where e: "e \<in> set P" "m (id' e) = Some k" "entryEnd slot e = ends ! k"
          using i2 by blast
        have "covers slot e s"
          using before [OF e(1)] nf [OF k] e(3) by (simp add: covers_def)
        then show "\<exists>e\<in>set P. m (id' e) = Some k \<and> covers slot e s"
          using e by blast
      qed
      then have "length ends \<le> depthAt slot P s" by (rule depthAt_ge_lanes)
      moreover have "covers slot x s"
        using sh by (simp add: covers_def s_def h_def)
      ultimately have "length (ends @ [h]) \<le> depthAt slot (P @ [x]) s"
        by (simp add: depthAt_snoc)
      then show "\<exists>t. length (ends @ [h]) \<le> depthAt slot (P @ [x]) t" ..
    qed
    then show ?thesis
      unfolding st placeEntry_eq using None by (simp add: s_def h_def)
  next
    case (Some k)
    have fk: "k < length ends" "ends ! k \<le> s"
      using findIndex_Some [OF Some] by simp_all
    have "packed slot (P @ [x]) (ends[k := h], m(id' x \<mapsto> k))"
      unfolding packed_def fst_conv snd_conv
    proof (intro conjI ballI allI impI)
      fix e assume e: "e \<in> set (P @ [x])"
      show "\<exists>j<length (ends[k := h]). (m(id' x \<mapsto> k)) (id' e) = Some j
              \<and> entryEnd slot e \<le> ends[k := h] ! j"
      proof (cases "e = x")
        case True
        then show ?thesis using fk(1) by (intro exI [of _ k]) (simp add: h_def)
      next
        case False
        then have p: "e \<in> set P" using e by simp
        then obtain j where j: "j < length ends" "m (id' e) = Some j" "entryEnd slot e \<le> ends ! j"
          using i1 by blast
        have "entryEnd slot e \<le> ends[k := h] ! j"
          using j fk sh by (cases "j = k") simp_all
        then show ?thesis
          using other [OF p] j by (intro exI [of _ j]) simp
      qed
    next
      fix j assume j: "j < length (ends[k := h])"
      show "\<exists>e\<in>set (P @ [x]). (m(id' x \<mapsto> k)) (id' e) = Some j
              \<and> entryEnd slot e = ends[k := h] ! j"
      proof (cases "j = k")
        case True
        then show ?thesis using fk(1) by (intro bexI [of _ x]) (simp_all add: h_def)
      next
        case False
        obtain e where e: "e \<in> set P" "m (id' e) = Some j" "entryEnd slot e = ends ! j"
          using i2 [of j] j by auto
        then show ?thesis
          using other [OF e(1)] False by (intro bexI [of _ e]) simp_all
      qed
    next
      fix a b
      assume a: "a \<in> set (P @ [x])" and b: "b \<in> set (P @ [x])"
        and ab: "id' a \<noteq> id' b \<and> (m(id' x \<mapsto> k)) (id' a) = (m(id' x \<mapsto> k)) (id' b)"
      have old: "(m(id' x \<mapsto> k)) (id' e) = m (id' e)" if "e \<in> set P" for e
        using other [OF that] by simp
      have lane_k: "\<not> overlapping slot x e" if ep: "e \<in> set P" and ek: "m (id' e) = Some k" for e
      proof -
        obtain j where j: "m (id' e) = Some j" "entryEnd slot e \<le> ends ! j"
          using i1 [OF ep] by blast
        then have "entryEnd slot e \<le> entryStart x" using ek fk(2) by (simp add: s_def)
        then show ?thesis by (rule not_overlapping_after)
      qed
      show "\<not> overlapping slot a b"
      proof (cases "a = x")
        case ax: True
        show ?thesis
        proof (cases "b = x")
          case True
          then show ?thesis using ax ab by simp
        next
          case False
          then have pb: "b \<in> set P" using b by simp
          then have "m (id' b) = Some k" using old [OF pb] ab ax by simp
          then show ?thesis using lane_k [OF pb] ax by simp
        qed
      next
        case ax: False
        then have pa: "a \<in> set P" using a by simp
        show ?thesis
        proof (cases "b = x")
          case True
          then have "m (id' a) = Some k" using old [OF pa] ab by simp
          then show ?thesis using lane_k [OF pa] True by (simp add: overlapping_sym)
        next
          case False
          then have pb: "b \<in> set P" using b by simp
          show ?thesis
            using i3 [OF pa pb] old [OF pa] old [OF pb] ab by simp
        qed
      qed
    next
      assume "ends[k := h] \<noteq> []"
      then have "ends \<noteq> []" by auto
      then obtain t where "length ends \<le> depthAt slot P t" using i4 by blast
      then have "length (ends[k := h]) \<le> depthAt slot (P @ [x]) t"
        by (simp add: depthAt_snoc)
      then show "\<exists>t. length (ends[k := h]) \<le> depthAt slot (P @ [x]) t" ..
    qed
    then show ?thesis
      unfolding st placeEntry_eq using Some by (simp add: s_def h_def)
  qed
qed

lemma packed_foldl:
  assumes "packed slot P st" "0 < slot" "distinct (map id' (P @ xs))"
    "sorted (map entryStart (P @ xs))"
  shows "packed slot (P @ xs) (foldl (placeEntry slot) st xs)"
  using assms
proof (induction xs arbitrary: P st)
  case Nil
  then show ?case by simp
next
  case (Cons x xs)
  have new: "id' x \<notin> id' ` set P"
    using Cons.prems(3) by auto
  have srt: "\<forall>e\<in>set P. entryStart e \<le> entryStart x"
    using Cons.prems(4) by (auto simp add: sorted_append)
  have "packed slot (P @ [x]) (placeEntry slot st x)"
    by (rule packed_step [OF Cons.prems(1,2) new srt])
  from Cons.IH [OF this Cons.prems(2)] Cons.prems(3,4) show ?case by simp
qed

lemma minutesOfDay_day: "minutesOfDay d = d div 60000 - 1440 * (d div 86400000)"
proof -
  have "d div 86400000 = d div 60000 div 1440"
    using zdiv_zmult2_eq [of 1440 d 60000] by simp
  then show ?thesis
    by (simp only: minutesOfDay_eq minus_mult_div_eq_mod)
qed

lemma minutesOfDay_mono:
  assumes "sameDay a b" "a \<le> b"
  shows "minutesOfDay a \<le> minutesOfDay b"
proof -
  have "a div 86400000 = b div 86400000"
    using assms(1) by (simp add: sameDay_def startOfDay_eq)
  moreover have "a div 60000 \<le> b div 60000"
    using assms(2) by (intro zdiv_mono1) simp_all
  ultimately show ?thesis by (simp add: minutesOfDay_day)
qed

lemma sorted_entryStart:
  assumes "\<forall>a\<in>set xs. \<forall>b\<in>set xs. sameDay (startDate a) (startDate b)"
    "sorted (map startDate xs)"
  shows "sorted (map entryStart xs)"
proof -
  have "sorted_wrt (\<lambda>a b. startDate a \<le> startDate b) xs"
    using assms(2) by (simp only: sorted_map)
  then have "sorted_wrt (\<lambda>a b. entryStart a \<le> entryStart b) xs"
  proof (rule sorted_wrt_mono_rel [rotated])
    fix a b assume "a \<in> set xs" "b \<in> set xs" "startDate a \<le> startDate b"
    then show "entryStart a \<le> entryStart b"
      unfolding entryStart_def using assms(1) by (intro minutesOfDay_mono) auto
  qed
  then show ?thesis by (simp only: sorted_map)
qed

lemma depthAt_sort_key: "depthAt slot (sort_key f xs) t = depthAt slot xs t"
  by (simp add: depthAt_def filter_sort)

lemma buildDayLayout_packed:
  assumes "distinct (map id' entries)"
    and "\<forall>a\<in>set entries. \<forall>b\<in>set entries. sameDay (startDate a) (startDate b)"
    and "0 < slot"
  shows "packed slot (sort_key startDate entries)
           (foldl (placeEntry slot) ([], Map.empty) (sort_key startDate entries))"
proof -
  let ?S = "sort_key startDate entries"
  have d: "distinct (map id' ?S)"
    using assms(1) by (simp add: distinct_map)
  have "sorted (map entryStart ?S)"
    using assms(2) by (intro sorted_entryStart) simp_all
  then show ?thesis
    using packed_foldl [OF packed_empty assms(3), of "?S"] d by simp
qed

text \<open>
  C1 as stated fails for entries shorter than one slot: the stand-up from 09:00 to 09:05
  and the follow-up from 09:10 to 09:20 are never under way together, yet with
  fifteen-minute slots the stand-up holds its lane until 09:15 and the layout has two
  lanes. It also fails for a day without entries, which has one lane.
\<close>

theorem buildDayLayout_short_entries:
  "laneCount (buildDayLayout [shortEntry, followUp] 15) = 2
   \<and> laneById (buildDayLayout [shortEntry, followUp] 15) (id' shortEntry) = Some 0
   \<and> laneById (buildDayLayout [shortEntry, followUp] 15) (id' followUp) = Some 1
   \<and> (\<forall>t. underWayAt [shortEntry, followUp] t \<le> 1)
   \<and> laneCount (buildDayLayout [] 15) = 1
   \<and> (\<forall>t. underWayAt [] t = 0)"
proof -
  have 1: "laneCount (buildDayLayout [shortEntry, followUp] 15) = 2" by code_simp
  have 2: "laneById (buildDayLayout [shortEntry, followUp] 15) (id' shortEntry) = Some 0"
    by code_simp
  have 3: "laneById (buildDayLayout [shortEntry, followUp] 15) (id' followUp) = Some 1"
    by code_simp
  have 4: "underWayAt [shortEntry, followUp] t \<le> 1" for t
    by (simp add: underWayAt_def shortEntry_def followUp_def mkEntry_def feb2026_def ms_defs)
  have 5: "laneCount (buildDayLayout [] 15) = 1"
    by (simp add: buildDayLayout_def)
  have 6: "underWayAt [] t = 0" for t
    by (simp add: underWayAt_def)
  show ?thesis using 1 2 3 4 5 6 by simp
qed

text \<open>
  C1 (amended): for entries with distinct ids that start on one calendar day and a
  positive slot size, every entry gets a lane below the lane count; two entries of one
  lane never overlap in the intervals the layout works with, from the minute of the start
  to that minute plus \<open>durationMinutes\<close>; no instant is covered by more intervals than there
  are lanes; and when there is an entry, some instant is covered by exactly as many
  intervals as there are lanes. For no entries the lane count is 1.
\<close>

theorem buildDayLayout_packing:
  assumes "distinct (map id' entries)"
    and "\<forall>a\<in>set entries. \<forall>b\<in>set entries. sameDay (startDate a) (startDate b)"
    and "0 < slotMinutes"
  shows "(let layout = buildDayLayout entries slotMinutes in
          (\<forall>e\<in>set entries. \<exists>k<laneCount layout. laneById layout (id' e) = Some k)
        \<and> (\<forall>a\<in>set entries. \<forall>b\<in>set entries.
              id' a \<noteq> id' b \<and> laneById layout (id' a) = laneById layout (id' b)
              \<longrightarrow> \<not> overlapping slotMinutes a b)
        \<and> (\<forall>t. depthAt slotMinutes entries t \<le> laneCount layout)
        \<and> (entries \<noteq> [] \<longrightarrow> (\<exists>t. depthAt slotMinutes entries t = laneCount layout))
        \<and> (entries = [] \<longrightarrow> laneCount layout = 1))"
proof -
  let ?S = "sort_key startDate entries"
  define st where "st = foldl (placeEntry slotMinutes) ([], Map.empty) ?S"
  have pk: "packed slotMinutes ?S st"
    unfolding st_def by (rule buildDayLayout_packed [OF assms])
  have d: "distinct (map id' ?S)"
    using assms(1) by (simp add: distinct_map)
  have L: "buildDayLayout entries slotMinutes
      = \<lparr> laneById = snd st, laneCount = max 1 (length (fst st)) \<rparr>"
    by (simp add: buildDayLayout_def st_def Let_def)
  have i1: "\<exists>k<length (fst st). snd st (id' e) = Some k" if "e \<in> set entries" for e
    using pk that unfolding packed_def by auto
  have i3: "\<not> overlapping slotMinutes a b"
    if "a \<in> set entries" "b \<in> set entries" "id' a \<noteq> id' b" "snd st (id' a) = snd st (id' b)"
    for a b
    using pk that unfolding packed_def by auto
  have i4: "\<exists>t. length (fst st) \<le> depthAt slotMinutes entries t" if "fst st \<noteq> []"
    using pk that unfolding packed_def by (simp add: depthAt_sort_key)
  have up: "depthAt slotMinutes entries t \<le> length (fst st)" for t
    using depthAt_le_lanes [OF pk d, of t] by (simp add: depthAt_sort_key)
  have c1: "\<forall>e\<in>set entries. \<exists>k<max 1 (length (fst st)). snd st (id' e) = Some k"
    using i1 by fastforce
  have c2: "\<forall>a\<in>set entries. \<forall>b\<in>set entries.
      id' a \<noteq> id' b \<and> snd st (id' a) = snd st (id' b) \<longrightarrow> \<not> overlapping slotMinutes a b"
    using i3 by blast
  have c3: "\<forall>t. depthAt slotMinutes entries t \<le> max 1 (length (fst st))"
    using up by (simp add: le_max_iff_disj)
  have c4: "entries \<noteq> [] \<longrightarrow> (\<exists>t. depthAt slotMinutes entries t = max 1 (length (fst st)))"
  proof
    assume "entries \<noteq> []"
    then obtain e where "e \<in> set entries" by (cases entries) auto
    then have ne: "fst st \<noteq> []" using i1 by fastforce
    then obtain t where "length (fst st) \<le> depthAt slotMinutes entries t" using i4 by blast
    then have "depthAt slotMinutes entries t = length (fst st)" using up [of t] by simp
    moreover have "max 1 (length (fst st)) = length (fst st)"
      using ne by (cases "fst st") simp_all
    ultimately show "\<exists>t. depthAt slotMinutes entries t = max 1 (length (fst st))" by auto
  qed
  have c5: "entries = [] \<longrightarrow> max 1 (length (fst st)) = 1"
    by (simp add: st_def)
  show ?thesis
    unfolding L Let_def using c1 c2 c3 c4 c5 by simp
qed

theorem buildDayLayout_packing_witness:
  "distinct (map id' mondayEntries)
   \<and> map (\<lambda>e. startOfDay (startDate e)) mondayEntries
       = [feb2026 9 0 0, feb2026 9 0 0, feb2026 9 0 0]
   \<and> map (laneById (buildDayLayout mondayEntries 15)) [6, 1, 2] = [Some 0, Some 0, Some 1]
   \<and> laneCount (buildDayLayout mondayEntries 15) = 2
   \<and> \<not> overlapping 15 (mondayEntries ! 0) (mondayEntries ! 1)
   \<and> (\<exists>t. depthAt 15 mondayEntries t = 2)"
proof -
  have d: "distinct (map id' mondayEntries)"
    by (simp add: mondayEntries_def designReview_def seedEntry_def mkEntry_def)
  have s: "map (\<lambda>e. startOfDay (startDate e)) mondayEntries
      = [feb2026 9 0 0, feb2026 9 0 0, feb2026 9 0 0]"
    by (simp add: mondayEntries_def designReview_def seedEntry_def mkEntry_def startOfDay_feb2026)
  then have day: "\<forall>a\<in>set mondayEntries. \<forall>b\<in>set mondayEntries.
      sameDay (startDate a) (startDate b)"
    by (simp add: mondayEntries_def sameDay_def)
  have l: "map (laneById (buildDayLayout mondayEntries 15)) [6, 1, 2] = [Some 0, Some 0, Some 1]"
    by code_simp
  have c: "laneCount (buildDayLayout mondayEntries 15) = 2"
    by code_simp
  have m: "mondayEntries ! 0 \<in> set mondayEntries" "mondayEntries ! 1 \<in> set mondayEntries"
    "id' (mondayEntries ! 0) = 6" "id' (mondayEntries ! 1) = 1"
    by (simp_all add: mondayEntries_def designReview_def seedEntry_def mkEntry_def)
  note th = buildDayLayout_packing [OF d day, of 15, unfolded Let_def, simplified]
  have "\<not> overlapping 15 (mondayEntries ! 0) (mondayEntries ! 1)"
    using th [THEN conjunct2, THEN conjunct1] m l by simp
  moreover have "\<exists>t. depthAt 15 mondayEntries t = 2"
    using th [THEN conjunct2, THEN conjunct2, THEN conjunct2, THEN conjunct1] c
    by (simp add: mondayEntries_def)
  ultimately show ?thesis using d s l c by simp
qed

subsection \<open>Entries on whole minutes\<close>

lemma whole_minute_start:
  assumes "60000 dvd startDate a"
  shows "startDate a = 60000 * (entryStart a + 1440 * (startDate a div 86400000))"
proof -
  have "startDate a = 60000 * (startDate a div 60000)"
    using assms by simp
  then show ?thesis
    by (simp add: entryStart_def minutesOfDay_day)
qed

lemma whole_minute_end:
  assumes "60000 dvd startDate a" "60000 dvd endDate a"
  shows "endDate a \<le> 60000 * (entryEnd slot a + 1440 * (startDate a div 86400000))"
proof -
  have "60000 dvd endDate a - startDate a" by (rule dvd_diff [OF assms(2) assms(1)])
  then obtain n where n: "endDate a - startDate a = 60000 * n" by (auto simp add: dvd_def)
  have "(60000 * n + 30000) div 60000 = n" by simp
  then have "n \<le> durationMinutes a slot"
    by (simp add: durationMinutes_eq n)
  then have "endDate a \<le> startDate a + 60000 * durationMinutes a slot"
    using n by simp
  then show ?thesis
    using whole_minute_start [OF assms(1)] by (simp add: entryEnd_def algebra_simps)
qed

lemma whole_minute_apart:
  assumes day: "sameDay (startDate a) (startDate b)"
    and a: "60000 dvd startDate a" "60000 dvd endDate a"
    and b: "60000 dvd startDate b" "60000 dvd endDate b"
    and pos: "0 < slot" and apart: "\<not> overlapping slot a b"
  shows "endDate a \<le> startDate b \<or> endDate b \<le> startDate a"
proof -
  have D: "startDate a div 86400000 = startDate b div 86400000"
    using day by (simp add: sameDay_def startOfDay_eq)
  note sa = whole_minute_start [OF a(1)] and sb = whole_minute_start [OF b(1)]
  note ea = whole_minute_end [OF a, of slot] and eb = whole_minute_end [OF b, of slot]
  have "entryEnd slot a \<le> entryStart b \<or> entryEnd slot b \<le> entryStart a"
    using apart entryEnd_gt [OF pos, of a] entryEnd_gt [OF pos, of b]
    by (auto simp add: overlapping_def min_def max_def split: if_splits)
  then show ?thesis
  proof
    assume "entryEnd slot a \<le> entryStart b"
    then have "60000 * (entryEnd slot a + 1440 * (startDate a div 86400000))
        \<le> 60000 * (entryStart b + 1440 * (startDate b div 86400000))"
      using D by simp
    then show ?thesis using ea sb by linarith
  next
    assume "entryEnd slot b \<le> entryStart a"
    then have "60000 * (entryEnd slot b + 1440 * (startDate b div 86400000))
        \<le> 60000 * (entryStart a + 1440 * (startDate a div 86400000))"
      using D by simp
    then show ?thesis using eb sa by linarith
  qed
qed

text \<open>
  When every start and end is a whole minute, as the gestures of the scheduler produce
  them, the layout interval of an entry contains the time from its start date to its end
  date, so that two entries of one lane are never under way together: one has ended when
  the other starts.
\<close>

theorem buildDayLayout_whole_minutes:
  assumes "distinct (map id' entries)"
    and "\<forall>a\<in>set entries. \<forall>b\<in>set entries. sameDay (startDate a) (startDate b)"
    and "0 < slotMinutes"
    and "\<forall>e\<in>set entries. 60000 dvd startDate e \<and> 60000 dvd endDate e"
  shows "\<forall>a\<in>set entries. \<forall>b\<in>set entries.
           id' a \<noteq> id' b
           \<and> laneById (buildDayLayout entries slotMinutes) (id' a)
             = laneById (buildDayLayout entries slotMinutes) (id' b)
           \<longrightarrow> endDate a \<le> startDate b \<or> endDate b \<le> startDate a"
proof (intro ballI impI)
  fix a b
  assume a: "a \<in> set entries" and b: "b \<in> set entries"
    and ab: "id' a \<noteq> id' b
      \<and> laneById (buildDayLayout entries slotMinutes) (id' a)
        = laneById (buildDayLayout entries slotMinutes) (id' b)"
  have "\<not> overlapping slotMinutes a b"
    using buildDayLayout_packed [OF assms(1-3)] a b ab
    unfolding packed_def by (simp add: buildDayLayout_def Let_def)
  then show "endDate a \<le> startDate b \<or> endDate b \<le> startDate a"
    using assms(2,4) a b by (intro whole_minute_apart [OF _ _ _ _ _ assms(3)]) auto
qed

theorem buildDayLayout_whole_minutes_witness:
  "distinct (map id' mondayEntries)
   \<and> map (\<lambda>e. startOfDay (startDate e)) mondayEntries
       = [feb2026 9 0 0, feb2026 9 0 0, feb2026 9 0 0]
   \<and> map (\<lambda>e. (startDate e mod 60000, endDate e mod 60000)) mondayEntries
       = [(0, 0), (0, 0), (0, 0)]
   \<and> map (laneById (buildDayLayout mondayEntries 15)) [6, 1] = [Some 0, Some 0]
   \<and> endDate (mondayEntries ! 1) \<le> startDate (mondayEntries ! 0)"
proof -
  have d: "distinct (map id' mondayEntries)"
    by (simp add: mondayEntries_def designReview_def seedEntry_def mkEntry_def)
  have s: "map (\<lambda>e. startOfDay (startDate e)) mondayEntries
      = [feb2026 9 0 0, feb2026 9 0 0, feb2026 9 0 0]"
    by (simp add: mondayEntries_def designReview_def seedEntry_def mkEntry_def startOfDay_feb2026)
  then have day: "\<forall>a\<in>set mondayEntries. \<forall>b\<in>set mondayEntries.
      sameDay (startDate a) (startDate b)"
    by (simp add: mondayEntries_def sameDay_def)
  have w: "map (\<lambda>e. (startDate e mod 60000, endDate e mod 60000)) mondayEntries
      = [(0, 0), (0, 0), (0, 0)]"
    by (simp add: mondayEntries_def designReview_def seedEntry_def mkEntry_def feb2026_def ms_defs)
  then have whole: "\<forall>e\<in>set mondayEntries. 60000 dvd startDate e \<and> 60000 dvd endDate e"
    by (simp add: mondayEntries_def dvd_eq_mod_eq_0)
  have l: "map (laneById (buildDayLayout mondayEntries 15)) [6, 1] = [Some 0, Some 0]"
    by code_simp
  have m: "mondayEntries ! 0 \<in> set mondayEntries" "mondayEntries ! 1 \<in> set mondayEntries"
    "id' (mondayEntries ! 0) = 6" "id' (mondayEntries ! 1) = 1"
    "\<not> endDate (mondayEntries ! 0) \<le> startDate (mondayEntries ! 1)"
    by (simp_all add: mondayEntries_def designReview_def seedEntry_def mkEntry_def feb2026_def ms_defs)
  have "endDate (mondayEntries ! 1) \<le> startDate (mondayEntries ! 0)"
    using buildDayLayout_whole_minutes [OF d day _ whole, of 15, rule_format, OF _ m(1) m(2)] m l
    by simp
  then show ?thesis using d s w l by simp
qed

section \<open>Day keys\<close>

text \<open>
  A drop zone is named by the key of its day, \<open>dayKey\<close>, and a drop reads the day back
  with \<open>parseDayKey\<close>. The calendar functions are those of the language standard, with the
  local time zone taken to be UTC.
\<close>

subsection \<open>The calendar\<close>

text \<open>
  \<open>YearFromDay d\<close> is the year that contains day \<open>d\<close>: the year starts on or before that day
  and the next year starts after it, so that the day within the year is between 0 and the
  length of the year.
\<close>

lemma div_lower: "0 < k \<Longrightarrow> n - (k - 1) \<le> k * (n div k)" for n k :: int
  using pos_mod_bound [of k n] mult_div_mod_eq [of k n] by linarith

lemma div_upper: "0 < k \<Longrightarrow> k * (n div k) \<le> n" for n k :: int
  using pos_mod_sign [of k n] mult_div_mod_eq [of k n] by linarith

lemma year_estimate_low:
  fixes q d A B C :: int
  assumes "3652425 * q \<le> d * 10000" "4 * A \<le> q" "q + 68 - 99 \<le> 100 * B" "400 * C \<le> q + 368"
  shows "365 * (q - 1) + A - B + C \<le> d"
proof -
  have "10000 * (365 * (q - 1) + A - B + C) \<le> 10000 * d"
    using assms by simp
  then show ?thesis by simp
qed

lemma YearFromDay_lower: "DayFromYear (YearFromDay d) \<le> d"
proof -
  define q where "q = (d * 10000) div 3652425"
  have q: "3652425 * q \<le> d * 10000"
    unfolding q_def by (rule div_upper) simp
  have a: "4 * (q div 4) \<le> q" by (rule div_upper) simp
  have b: "q + 68 - 99 \<le> 100 * ((q + 68) div 100)" using div_lower [of 100 "q + 68"] by simp
  have c: "400 * ((q + 368) div 400) \<le> q + 368" by (rule div_upper) simp
  have "DayFromYear (1970 + q - 1) = 365 * (q - 1) + q div 4 - (q + 68) div 100 + (q + 368) div 400"
    by (simp add: DayFromYear_def algebra_simps)
  then have low: "DayFromYear (1970 + q - 1) \<le> d"
    using year_estimate_low [OF q a b c] by simp
  show ?thesis
    unfolding YearFromDay_def Let_def q_def [symmetric] using low by simp
qed

lemma DayWithinYear_nonneg: "0 \<le> DayWithinYear t"
  unfolding DayWithinYear_def YearFromTime_def using YearFromDay_lower [of "Day t"] by simp

lemma InLeapYear_cases: "InLeapYear t = 0 \<or> InLeapYear t = 1"
  by (simp add: InLeapYear_def)

lemma MonthFromTime_range: "0 \<le> MonthFromTime t \<and> MonthFromTime t \<le> 11"
  by (simp add: MonthFromTime_def Let_def)

lemma DateFromTime_pos: "1 \<le> DateFromTime t"
  using DayWithinYear_nonneg [of t] InLeapYear_cases [of t]
  unfolding DateFromTime_def MonthFromTime_def daysBeforeMonth_def Let_def
  by (simp split: if_splits)

lemma MakeDay_round_trip: "MakeDay (YearFromTime t) (MonthFromTime t) (DateFromTime t) = Day t"
proof -
  have m: "MonthFromTime t div 12 = 0" "MonthFromTime t mod 12 = MonthFromTime t"
    using MonthFromTime_range [of t] by simp_all
  show ?thesis
    unfolding MakeDay_def Let_def m
    by (simp add: DateFromTime_def DayWithinYear_def InLeapYear_def)
qed

lemma validTime_Day: "validTime d \<Longrightarrow> validTime (Day d * msPerDay)"
proof -
  assume v: "validTime d"
  have lo: "- 100000000 \<le> d div 86400000"
  proof -
    have "(- 100000000 * 86400000) div 86400000 \<le> d div 86400000"
      using v by (intro zdiv_mono1) (simp_all add: validTime_def maxTimeValue_def)
    then show ?thesis by simp
  qed
  have hi: "86400000 * (d div 86400000) \<le> d" by (rule div_upper) simp
  show ?thesis
    using v lo hi by (simp add: validTime_def maxTimeValue_def Day_def msPerDay_def)
qed

lemma year_estimate_up:
  fixes q d A B C :: int
  assumes "d * 10000 < 3652425 * q + 3652425" "q + 3 - 3 \<le> 4 * A" "100 * B \<le> q + 71"
    "q + 371 - 399 \<le> 400 * C"
  shows "d < 365 * (q + 2) + A - B + C"
proof -
  have "10000 * d < 10000 * (365 * (q + 2) + A - B + C)"
    using assms by simp
  then show ?thesis by simp
qed

lemma YearFromDay_upper: "d < DayFromYear (YearFromDay d + 1)"
proof -
  define q where "q = (d * 10000) div 3652425"
  have q: "d * 10000 < 3652425 * q + 3652425"
    unfolding q_def using div_lower [of 3652425 "d * 10000"] by simp
  have a: "q + 3 - 3 \<le> 4 * ((q + 3) div 4)" using div_lower [of 4 "q + 3"] by simp
  have b: "100 * ((q + 71) div 100) \<le> q + 71" by (rule div_upper) simp
  have c: "q + 371 - 399 \<le> 400 * ((q + 371) div 400)" using div_lower [of 400 "q + 371"] by simp
  have "DayFromYear (1970 + q + 2) = 365 * (q + 2) + (q + 3) div 4 - (q + 71) div 100 + (q + 371) div 400"
    by (simp add: DayFromYear_def algebra_simps)
  then have up: "d < DayFromYear (1970 + q + 2)"
    using year_estimate_up [OF q a b c] by simp
  have e: "1970 + q + 1 + 1 = 1970 + q + 2" "1970 + q - 1 + 1 = 1970 + q" by simp_all
  show ?thesis
    unfolding YearFromDay_def Let_def q_def [symmetric]
    using up by (simp add: e)
qed

lemma div_step:
  fixes n k :: int
  assumes "0 < k"
  shows "(n + 1) div k = n div k + (if (n + 1) mod k = 0 then 1 else 0)"
proof -
  have e: "k * ((n + 1) div k) + (n + 1) mod k = k * (n div k) + n mod k + 1"
    by simp
  note b = pos_mod_sign [OF assms, of n] pos_mod_bound [OF assms, of n]
    pos_mod_sign [OF assms, of "n + 1"] pos_mod_bound [OF assms, of "n + 1"]
  show ?thesis
  proof (cases "(n + 1) mod k = 0")
    case True
    then have "k * ((n + 1) div k) = k * (n div k) + n mod k + 1" using e by simp
    then have "k * ((n + 1) div k - n div k) = n mod k + 1" by (simp add: algebra_simps)
    moreover have "0 < n mod k + 1" "n mod k + 1 \<le> k" using b by linarith+
    ultimately have "k * 0 < k * ((n + 1) div k - n div k)" "k * ((n + 1) div k - n div k) \<le> k * 1"
      by simp_all
    then have "0 < (n + 1) div k - n div k" "(n + 1) div k - n div k \<le> 1"
      using assms by (simp_all only: mult_less_cancel_left_pos mult_le_cancel_left_pos)
    then show ?thesis using True by simp
  next
    case False
    then have p: "0 < (n + 1) mod k" using b by linarith
    have "k * ((n + 1) div k - n div k) = n mod k + 1 - (n + 1) mod k"
      using e by (simp add: algebra_simps)
    moreover have "- k < n mod k + 1 - (n + 1) mod k" "n mod k + 1 - (n + 1) mod k < k"
      using b p by linarith+
    ultimately have "k * (- 1) < k * ((n + 1) div k - n div k)" "k * ((n + 1) div k - n div k) < k * 1"
      by simp_all
    then have "- 1 < (n + 1) div k - n div k" "(n + 1) div k - n div k < 1"
      using assms by (simp_all only: mult_less_cancel_left_pos)
    then show ?thesis using False by simp
  qed
qed

lemma m4: "((y - 1969) + 1) mod 4 = 0 \<longleftrightarrow> y mod 4 = 0" for y :: int
proof -
  have "y - 1969 + 1 = y + 4 * (- 492)" by simp
  then show ?thesis by (simp only: mod_mult_self2)
qed
lemma m100: "((y - 1901) + 1) mod 100 = 0 \<longleftrightarrow> y mod 100 = 0" for y :: int
proof -
  have "y - 1901 + 1 = y + 100 * (- 19)" by simp
  then show ?thesis by (simp only: mod_mult_self2)
qed
lemma m400: "((y - 1601) + 1) mod 400 = 0 \<longleftrightarrow> y mod 400 = 0" for y :: int
proof -
  have "y - 1601 + 1 = y + 400 * (- 4)" by simp
  then show ?thesis by (simp only: mod_mult_self2)
qed
lemma dd400: "y mod 400 = 0 \<Longrightarrow> y mod 100 = 0" for y :: int
proof -
  assume "y mod 400 = 0"
  then have "400 dvd y" by (simp only: mod_eq_0_iff_dvd)
  moreover have "(100::int) dvd 400" by simp
  ultimately have "100 dvd y" by (rule dvd_trans [rotated])
  then show ?thesis by (simp only: mod_eq_0_iff_dvd)
qed
lemma dd100: "y mod 100 = 0 \<Longrightarrow> y mod 4 = 0" for y :: int
proof -
  assume "y mod 100 = 0"
  then have "100 dvd y" by (simp only: mod_eq_0_iff_dvd)
  moreover have "(4::int) dvd 100" by simp
  ultimately have "4 dvd y" by (rule dvd_trans [rotated])
  then show ?thesis by (simp only: mod_eq_0_iff_dvd)
qed

lemma DayFromYear_step: "DayFromYear (y + 1) = DayFromYear y + DaysInYear y"
proof -
  have e: "y + 1 - 1969 = (y - 1969) + 1" "y + 1 - 1901 = (y - 1901) + 1"
    "y + 1 - 1601 = (y - 1601) + 1" by simp_all
  have s: "(y - 1969 + 1) div 4 = (y - 1969) div 4 + (if y mod 4 = 0 then 1 else 0)"
    "(y - 1901 + 1) div 100 = (y - 1901) div 100 + (if y mod 100 = 0 then 1 else 0)"
    "(y - 1601 + 1) div 400 = (y - 1601) div 400 + (if y mod 400 = 0 then 1 else 0)"
    using div_step [of 4 "y - 1969"] div_step [of 100 "y - 1901"] div_step [of 400 "y - 1601"]
    by (simp_all only: m4 m100 m400)
  show ?thesis
    unfolding DayFromYear_def DaysInYear_def e s
    using dd400 [of y] dd100 [of y] by auto
qed

lemma DayWithinYear_less: "DayWithinYear t < DaysInYear (YearFromTime t)"
  unfolding DayWithinYear_def YearFromTime_def
  using YearFromDay_upper [of "Day t"] DayFromYear_step [of "YearFromDay (Day t)"] by simp

subsection \<open>Printing and reading numbers\<close>

declare showNat.simps [simp del]

lemma digitVal_digitChar: "n < 10 \<Longrightarrow> digitVal (digitChar n) = Some n"
proof -
  assume "n < 10"
  then have "n \<in> {0, 1, 2, 3, 4, 5, 6, 7, 8, 9}" by auto
  then show ?thesis
    by (elim insertE emptyE; simp add: digitVal_def digitChar_def)
qed

lemma digitChar_not_dash: "n < 10 \<Longrightarrow> digitChar n \<noteq> CHR ''-''"
proof -
  assume "n < 10"
  then have "n \<in> {0, 1, 2, 3, 4, 5, 6, 7, 8, 9}" by auto
  then show ?thesis
    by (elim insertE emptyE; simp add: digitChar_def)
qed

lemma parseDigits_snoc:
  "parseDigits acc (xs @ [c]) =
     (case parseDigits acc xs of None \<Rightarrow> None
      | Some n \<Rightarrow> (case digitVal c of None \<Rightarrow> None | Some v \<Rightarrow> Some (n * 10 + v)))"
  by (induction xs arbitrary: acc) (simp_all split: option.splits)

lemma parseDigits_showNat: "parseDigits 0 (showNat n) = Some n"
proof (induction n rule: showNat.induct)
  case (1 n)
  show ?case
  proof (cases "n < 10")
    case True
    then show ?thesis
      by (subst showNat.simps) (simp add: digitVal_digitChar)
  next
    case False
    then have ih: "parseDigits 0 (showNat (n div 10)) = Some (n div 10)"
      using 1 by simp
    have "n mod 10 < 10" by simp
    then have dv: "digitVal (digitChar (n mod 10)) = Some (n mod 10)"
      by (rule digitVal_digitChar)
    show ?thesis
      using False by (subst showNat.simps) (simp add: parseDigits_snoc ih dv)
  qed
qed

lemma showNat_no_dash: "CHR ''-'' \<notin> set (showNat n)"
proof (induction n rule: showNat.induct)
  case (1 n)
  show ?case
  proof (cases "n < 10")
    case True
    then show ?thesis
      using digitChar_not_dash [of n] by (subst showNat.simps) auto
  next
    case False
    then have ih: "CHR ''-'' \<notin> set (showNat (n div 10))"
      using 1 by simp
    have "digitChar (n mod 10) \<noteq> CHR ''-''"
      by (rule digitChar_not_dash) simp
    then show ?thesis
      using False ih by (subst showNat.simps) auto
  qed
qed

lemma split_nonempty: "split c xs \<noteq> []"
  by (induction xs) (simp_all split: list.splits)

lemma split_no_sep: "c \<notin> set xs \<Longrightarrow> split c xs = [xs]"
  by (induction xs) auto

lemma split_at_sep: "c \<notin> set xs \<Longrightarrow> split c (xs @ c # ys) = xs # split c ys"
  by (induction xs) auto

lemma Number_showInt: "0 \<le> i \<Longrightarrow> Number (showInt i) = Num i"
  by (simp add: Number_def showInt_def parseDigits_showNat)

lemma split_dayKey:
  assumes "0 \<le> y" "0 \<le> m" "0 \<le> dt"
  shows "split CHR ''-'' (showInt y @ ''-'' @ showInt m @ ''-'' @ showInt dt)
           = [showInt y, showInt m, showInt dt]"
proof -
  have n: "CHR ''-'' \<notin> set (showInt y)" "CHR ''-'' \<notin> set (showInt m)"
    "CHR ''-'' \<notin> set (showInt dt)"
    using assms by (simp_all add: showInt_def showNat_no_dash)
  show ?thesis
    using n by (simp add: split_at_sep split_no_sep)
qed

subsection \<open>The round trip\<close>

text \<open>
  C10 as stated fails for a date in the first century: 1 January of the year 50 has the
  key \<open>50-0-1\<close>, and the date constructor reads a year from 0 to 99 as 1900 plus that year,
  so that the key is read back as 1 January 1950 and not as the midnight of the original
  day.
\<close>

theorem parseDayKey_dayKey_year_fifty: "validTime (- 60589296000000) \<and> dayKey (- 60589296000000) = ''50-0-1''
   \<and> parseDayKey (dayKey (- 60589296000000)) = Some (Valid_Date (- 631152000000))
   \<and> startOfDay (- 60589296000000) = - 60589296000000"
  by code_simp

text \<open>
  C10 (amended): for every valid date whose year is at least 100, \<open>parseDayKey\<close> of its
  \<open>dayKey\<close> is a date, not \<open>null\<close>, and it is the midnight that starts the day of the
  original date.
\<close>

theorem parseDayKey_dayKey:
  assumes "validTime d" "100 \<le> getFullYear d"
  shows "parseDayKey (dayKey d) = Some (Valid_Date (startOfDay d))"
proof -
  have y: "0 \<le> YearFromTime d" "\<not> YearFromTime d \<le> 99"
    using assms(2) by (simp_all add: getFullYear_def)
  have m: "0 \<le> MonthFromTime d" using MonthFromTime_range [of d] by simp
  have dt: "0 \<le> DateFromTime d" using DateFromTime_pos [of d] by simp
  have parts: "map Number (split CHR ''-'' (dayKey d))
      = [Num (YearFromTime d), Num (MonthFromTime d), Num (DateFromTime d)]"
    unfolding dayKey_def getFullYear_def getMonth_def getDate_def
    by (simp only: split_dayKey [OF y(1) m dt] list.map Number_showInt [OF y(1)]
        Number_showInt [OF m] Number_showInt [OF dt])
  have "parseDayKey (dayKey d) = Some (newDate3 (YearFromTime d) (MonthFromTime d) (DateFromTime d))"
    unfolding parseDayKey_def parts by simp
  also have "newDate3 (YearFromTime d) (MonthFromTime d) (DateFromTime d)
      = Valid_Date (Day d * msPerDay)"
    using y(2) validTime_Day [OF assms(1)]
    by (simp add: newDate3_def MakeDay_round_trip TimeClip_def)
  also have "Day d * msPerDay = startOfDay d"
    by (simp add: startOfDay_def setHours_def)
  finally show ?thesis .
qed

theorem parseDayKey_dayKey_witness:
  "validTime (feb2026 9 14 45) \<and> getFullYear (feb2026 9 14 45) = 2026
   \<and> dayKey (feb2026 9 14 45) = ''2026-1-9''
   \<and> parseDayKey ''2026-1-9'' = Some (Valid_Date (feb2026 9 0 0))"
proof -
  have v: "validTime (feb2026 9 14 45)" by code_simp
  have y: "getFullYear (feb2026 9 14 45) = 2026" by code_simp
  have k: "dayKey (feb2026 9 14 45) = ''2026-1-9''" by code_simp
  have s: "startOfDay (feb2026 9 14 45) = feb2026 9 0 0" by code_simp
  have "100 \<le> getFullYear (feb2026 9 14 45)" by (simp add: y)
  from parseDayKey_dayKey [OF v this] show ?thesis
    by (simp add: v y k s)
qed

section \<open>Normalising task items\<close>

text \<open>
  C2, as stated, fails: an item from 09:00 to 09:05 keeps its five minutes when the block
  is fifteen minutes long; only an end at or before the start is moved.
\<close>

theorem normalizeTaskItem_short_entry_kept:
  "endDate (normalizeTaskItem item0905 15) - startDate (normalizeTaskItem item0905 15) = 5 * 60000
   \<and> \<not> (15 * 60000 \<le> endDate (normalizeTaskItem item0905 15) - startDate (normalizeTaskItem item0905 15))"
  by (simp add: normalizeTaskItem_def item0905_def Let_def)

text \<open>
  C2 (amended): with a positive block size the normalised appointment starts where the
  item starts and ends strictly later; an end at or before the start becomes the start plus
  exactly one block, a later end is kept as given, and the rounded duration
  \<open>durationMinutes\<close> of the result is at least one block.
\<close>

theorem normalizeTaskItem_duration_floor:
  assumes "0 < b"
  shows "startDate (normalizeTaskItem item b) = item_startDate item
    \<and> startDate (normalizeTaskItem item b) < endDate (normalizeTaskItem item b)
    \<and> (if item_endDate item \<le> item_startDate item
        then endDate (normalizeTaskItem item b) - startDate (normalizeTaskItem item b) = b * 60000
        else endDate (normalizeTaskItem item b) = item_endDate item)
    \<and> b \<le> durationMinutes (normalizeTaskItem item b) b"
  using assms by (simp add: normalizeTaskItem_def Let_def durationMinutes_ge)

theorem normalizeTaskItem_duration_floor_witness:
  "startDate (normalizeTaskItem (item0905\<lparr>item_endDate := 0\<rparr>) 15) = 32400000
    \<and> endDate (normalizeTaskItem (item0905\<lparr>item_endDate := 0\<rparr>) 15) = 32400000 + 15 * 60000
    \<and> 15 \<le> durationMinutes (normalizeTaskItem (item0905\<lparr>item_endDate := 0\<rparr>) 15) 15"
  using normalizeTaskItem_duration_floor [of 15 "item0905\<lparr>item_endDate := 0\<rparr>"]
  by (simp add: item0905_def)

end
